theory Spec2Isabelle
  imports Complex_Main "HOL-Library.Word"
begin

section \<open>The Engine coordinator of the sequencer (Engine.cpp)\<close>

text \<open>
  The embedding follows \<^verbatim>\<open>src/apps/sequencer/engine/Engine.cpp\<close> function by function.
  The engine mutates the model and calls into its collaborators (Clock, track engines,
  GateOutput, CvOutput, MIDI ports, routing); the embedding passes one state record
  through every function and appends every call made on a collaborator to a trace, in
  program order. A dereference of an empty track-engine slot, an index supplied by the
  model that lies outside its array and a division by zero are results of type
  \<open>error\<close>. C++ \<^verbatim>\<open>float\<close> values are carried as \<open>real\<close>; no statement below depends on
  rounding.
\<close>

subsection \<open>Data model\<close>

type_synonym u8 = "8 word"
type_synonym u32 = "32 word"

datatype error = NullPointer | OutOfRange | DivisionByZero

datatype TrackMode = TrackMode_Note | TrackMode_Curve | TrackMode_MidiCv | TrackMode_Last

datatype ClockSetupMode = Mode_Auto | Mode_Master | Mode_Slave | Mode_Last

datatype ClockInputMode =
  ClockInputMode_Reset | ClockInputMode_Run | ClockInputMode_StartStop | ClockInputMode_Last

datatype ClockOutputMode = ClockOutputMode_Reset | ClockOutputMode_Run | ClockOutputMode_Last

datatype ClockSource = ClockSourceExternal | ClockSourceMidi | ClockSourceUsbMidi

datatype ClockMode = Clock_Auto | Clock_Master | Clock_Slave

text \<open>\<^verbatim>\<open>Clock::Event\<close>; the falsy value (no event) is the empty event queue.\<close>

datatype ClockEvent = Clock_Start | Clock_Stop | Clock_Continue | Clock_Reset

datatype MidiPort = Port_Midi | Port_UsbMidi

record MidiMessage =
  channel :: int
  payload :: "nat list"

text \<open>
  Modelled from the spec: \<^verbatim>\<open>PlayState.h\<close> is absent. Each track state carries its mute,
  fill and pattern values, the requested values and the pending request flags; the
  flags of the source are distinct bits of one integer, so a mask is a set of flags,
  \<^verbatim>\<open>|\<close> is union, \<^verbatim>\<open>hasRequests(mask)\<close> is a non-empty intersection and
  \<^verbatim>\<open>clearRequests(mask)\<close> is set difference.
\<close>

datatype TrackRequest =
  ImmediateMuteRequest | SyncedMuteRequest | LatchedMuteRequest
| ImmediatePatternRequest | SyncedPatternRequest | LatchedPatternRequest

record TrackState =
  mute :: bool
  requestedMute :: bool
  fill :: bool
  pattern :: int
  requestedPattern :: int
  requests :: "TrackRequest set"

datatype SongRequest =
  ImmediatePlayRequest | SyncedPlayRequest | LatchedPlayRequest
| ImmediateStopRequest | SyncedStopRequest | LatchedStopRequest

record SongState =
  currentSlot :: int
  currentRepeat :: int
  requestedSlot :: int
  playing :: bool
  songRequests :: "SongRequest set"

record PlayState =
  trackStates :: "TrackState list"
  songState :: SongState
  hasImmediateRequests :: bool
  hasSyncedRequests :: bool
  hasLatchedRequests :: bool
  executeLatchedRequests :: bool

text \<open>
  Modelled from the spec: \<^verbatim>\<open>Song.h\<close> is absent. A song is an array of slots of which the
  first \<open>slotCount\<close> are in use; a slot carries one pattern per track and a repeat count.
\<close>

record Slot =
  patterns :: "int list"
  repeats :: int

record Song =
  slots :: "Slot list"
  slotCount :: int

record Track =
  trackMode :: TrackMode
  linkTrack :: int

record ClockSetup =
  mode :: ClockSetupMode
  clockInputMode :: ClockInputMode
  clockInputDivisor :: int
  clockOutputMode :: ClockOutputMode
  clockOutputDivisor :: int
  clockOutputPulse :: int
  midiRx :: bool
  usbRx :: bool
  midiTx :: bool
  usbTx :: bool
  dirty :: bool

text \<open>
  Modelled from the spec: \<^verbatim>\<open>Project.h\<close> is absent. The output routing arrays hold track
  indices (unsigned); \<open>selectedTrackIndex\<close> is compared with the \<^verbatim>\<open>int\<close> loop index.
\<close>

record Project =
  bpm :: real
  swing :: int
  syncMeasure :: nat
  selectedTrackIndex :: int
  tracks :: "Track list"
  gateOutputTracks :: "nat list"
  cvOutputTracks :: "nat list"
  playState :: PlayState
  song :: Song
  clockSetup :: ClockSetup

record OutputState =
  out_clock :: bool
  out_reset :: bool
  out_run :: bool

text \<open>
  Modelled from the spec: \<^verbatim>\<open>Clock.h\<close> is absent. The engine reads the pending ticks and
  transport events in queue order and the flags \<open>isRunning\<close>, \<open>isIdle\<close> and
  \<open>outputState\<close>; every command it sends to the Clock is recorded in the trace.
\<close>

record Clock =
  tickQueue :: "u32 list"
  eventQueue :: "ClockEvent list"
  isRunning :: bool
  isIdle :: bool
  outputState :: OutputState

datatype ClockCall =
  MasterStart | MasterStop | MasterContinue | MasterReset
| SetMasterBpm real
| SetMode ClockMode
| SlaveConfigure ClockSource int bool
| SlaveStart ClockSource
| SlaveStop ClockSource
| SlaveContinue ClockSource
| SlaveReset ClockSource
| SlaveTick ClockSource
| OutputConfigure int int

text \<open>
  Modelled from the spec: \<^verbatim>\<open>TrackEngine.h\<close> and the three engine variants are absent.
  A slot's engine has a declared mode, a borrowed link to another slot and the idle
  output flag; the per-track algorithms are out of scope, so every other method is
  recorded as a call and the values an engine answers to the output queries are the
  parameters \<open>trackGateOutput\<close>, \<open>trackIdleGateOutput\<close>, \<open>trackCvOutput\<close> and
  \<open>trackIdleCvOutput\<close> of the state.
\<close>

record TrackEngine =
  engineTrackMode :: TrackMode
  linkedTrackEngine :: "nat option"
  idleOutput :: bool

datatype TrackEngineCall =
  Create TrackMode "nat option"
| SetMute bool
| SetFill bool
| SetPattern int
| SetSwing int
| ResetEngine
| TickEngine u32
| UpdateEngine real
| ReceiveMidi MidiPort int MidiMessage
| ClearIdleOutput
| IdleGateOutput nat
| GateOutput nat
| IdleCvOutput nat
| CvOutput nat

datatype Event =
  ClockEv ClockCall
| TrackEv nat TrackEngineCall
| SetGate nat bool
| SetGates "bool list"
| SetChannel nat real
| CvOutputUpdate
| CvInputUpdate
| RoutingUpdate
| RoutingReceiveMidi MidiPort MidiMessage
| MidiLearnReceiveMidi MidiPort MidiMessage
| MidiReceiveHandler MidiPort MidiMessage
| NudgeTempoUpdate real
| DioClockOutput bool
| DioResetOutput bool

text \<open>
  The engine with everything it owns or borrows. \<open>gates\<close> and \<open>channels\<close> are the values
  held by GateOutput and CvOutput; \<open>midi\<close> and \<open>usbMidi\<close> are the receive queues of the two
  ports; \<open>resetInput\<close> is the level of the reset pin. \<open>CONFIG_PPQN\<close>, \<open>os_time_ms1\<close>
  (\<^verbatim>\<open>os::time::ms(1)\<close>) and the effect of \<^verbatim>\<open>RoutingEngine::update\<close> on the model and of
  \<^verbatim>\<open>NudgeTempo::update\<close> on the nudge strength come from files that are absent and are
  parameters. The number of tracks is the size of the slot array.
\<close>

record Engine =
  project :: Project
  clock :: Clock
  resetInput :: bool
  midi :: "MidiMessage list"
  usbMidi :: "MidiMessage list"
  gates :: "bool list"
  channels :: "real list"
  trackEngines :: "TrackEngine option list"
  trackGateOutput :: "nat \<Rightarrow> nat \<Rightarrow> bool"
  trackIdleGateOutput :: "nat \<Rightarrow> nat \<Rightarrow> bool"
  trackCvOutput :: "nat \<Rightarrow> nat \<Rightarrow> real"
  trackIdleCvOutput :: "nat \<Rightarrow> nat \<Rightarrow> real"
  routingEffect :: "Project \<Rightarrow> Project"
  nudgeStrength :: real
  nudgeEffect :: "real \<Rightarrow> real \<Rightarrow> real"
  midiReceiveHandler :: bool
  tick :: u32
  lastSystemTicks :: u32
  running :: bool
  locked :: u8
  requestLock :: u8
  requestUnlock :: u8
  gateOutputOverride :: bool
  gateOutputOverrideValue :: "bool list"
  cvOutputOverride :: bool
  cvOutputOverrideValues :: "real list"
  CONFIG_PPQN :: nat
  os_time_ms1 :: nat
  trace :: "Event list"

definition CONFIG_TRACK_COUNT :: "Engine \<Rightarrow> nat" where
  "CONFIG_TRACK_COUNT e = length (trackEngines e)"

subsection \<open>Sequencing with errors\<close>

fun foldE :: "('a \<Rightarrow> 's \<Rightarrow> error + 's) \<Rightarrow> 'a list \<Rightarrow> 's \<Rightarrow> error + 's" where
  "foldE f [] s = Inr s"
| "foldE f (x # xs) s = (case f x s of Inl err \<Rightarrow> Inl err | Inr s' \<Rightarrow> foldE f xs s')"

definition emit :: "Event \<Rightarrow> Engine \<Rightarrow> Engine" where
  "emit ev e = e\<lparr>trace := trace e @ [ev]\<rparr>"

text \<open>A method call through \<^verbatim>\<open>_trackEngines[i]->\<close>: the slot must hold an engine.\<close>

definition callTrackEngine :: "nat \<Rightarrow> TrackEngineCall \<Rightarrow> Engine \<Rightarrow> error + Engine" where
  "callTrackEngine i c e =
     (if length (trackEngines e) \<le> i then Inl OutOfRange
      else case trackEngines e ! i of
             None \<Rightarrow> Inl NullPointer
           | Some te \<Rightarrow> Inr (emit (TrackEv i c) e))"

definition getTrackEngine :: "nat \<Rightarrow> Engine \<Rightarrow> error + TrackEngine" where
  "getTrackEngine i e =
     (if length (trackEngines e) \<le> i then Inl OutOfRange
      else case trackEngines e ! i of
             None \<Rightarrow> Inl NullPointer
           | Some te \<Rightarrow> Inr te)"

definition setPlayState :: "PlayState \<Rightarrow> Engine \<Rightarrow> Engine" where
  "setPlayState ps e = e\<lparr>project := (project e)\<lparr>playState := ps\<rparr>\<rparr>"

definition setTrackStates :: "TrackState list \<Rightarrow> Engine \<Rightarrow> Engine" where
  "setTrackStates tss e = setPlayState ((playState (project e))\<lparr>trackStates := tss\<rparr>) e"

definition setSongState :: "SongState \<Rightarrow> Engine \<Rightarrow> Engine" where
  "setSongState ss e = setPlayState ((playState (project e))\<lparr>songState := ss\<rparr>) e"

definition Song_slot :: "Song \<Rightarrow> int \<Rightarrow> error + Slot" where
  "Song_slot sg i =
     (if 0 \<le> i \<and> i < int (length (slots sg)) then Inr (slots sg ! nat i) else Inl OutOfRange)"

definition bindE :: "error + 'a \<Rightarrow> ('a \<Rightarrow> error + 'b) \<Rightarrow> error + 'b" where
  "bindE m f = (case m of Inl err \<Rightarrow> Inl err | Inr x \<Rightarrow> f x)"

definition modifyTrackState :: "nat \<Rightarrow> (TrackState \<Rightarrow> TrackState) \<Rightarrow> Engine \<Rightarrow> Engine" where
  "modifyTrackState i f e =
     (let tss = trackStates (playState (project e)) in setTrackStates (tss[i := f (tss ! i)]) e)"

subsection \<open>Play-state arbitration: \<^verbatim>\<open>Engine::updatePlayState\<close>\<close>

definition TrackState_hasRequests :: "TrackState \<Rightarrow> TrackRequest set \<Rightarrow> bool" where
  "TrackState_hasRequests ts m = (requests ts \<inter> m \<noteq> {})"

definition TrackState_clearRequests :: "TrackRequest set \<Rightarrow> TrackState \<Rightarrow> TrackState" where
  "TrackState_clearRequests m ts = ts\<lparr>requests := requests ts - m\<rparr>"

definition SongState_hasRequests :: "SongState \<Rightarrow> SongRequest set \<Rightarrow> bool" where
  "SongState_hasRequests ss m = (songRequests ss \<inter> m \<noteq> {})"

definition SongState_clearRequests :: "SongRequest set \<Rightarrow> SongState \<Rightarrow> SongState" where
  "SongState_clearRequests m ss = ss\<lparr>songRequests := songRequests ss - m\<rparr>"

text \<open>\<^verbatim>\<open>uint32_t measureDivisor = (_model.project().syncMeasure() * CONFIG_PPQN * 4)\<close>\<close>

definition measureDivisor :: "Engine \<Rightarrow> u32" where
  "measureDivisor e = of_nat (syncMeasure (project e) * CONFIG_PPQN e * 4)"

definition handleSyncedRequests :: "Engine \<Rightarrow> bool" where
  "handleSyncedRequests e =
     (tick e mod measureDivisor e = 0 \<or> tick e mod measureDivisor e = measureDivisor e - 1)"

definition switchToNextSlot :: "bool \<Rightarrow> Engine \<Rightarrow> bool" where
  "switchToNextSlot ticked e = (ticked \<and> tick e mod measureDivisor e = measureDivisor e - 1)"

definition muteRequests :: "bool \<Rightarrow> bool \<Rightarrow> TrackRequest set" where
  "muteRequests hSynced hLatched =
     {ImmediateMuteRequest} \<union> (if hSynced then {SyncedMuteRequest} else {})
       \<union> (if hLatched then {LatchedMuteRequest} else {})"

definition patternRequests :: "bool \<Rightarrow> bool \<Rightarrow> TrackRequest set" where
  "patternRequests hSynced hLatched =
     {ImmediatePatternRequest} \<union> (if hSynced then {SyncedPatternRequest} else {})
       \<union> (if hLatched then {LatchedPatternRequest} else {})"

definition playRequests :: "bool \<Rightarrow> bool \<Rightarrow> SongRequest set" where
  "playRequests hSynced hLatched =
     {ImmediatePlayRequest} \<union> (if hSynced then {SyncedPlayRequest} else {})
       \<union> (if hLatched then {LatchedPlayRequest} else {})"

definition stopRequests :: "bool \<Rightarrow> bool \<Rightarrow> SongRequest set" where
  "stopRequests hSynced hLatched =
     {ImmediateStopRequest} \<union> (if hSynced then {SyncedStopRequest} else {})
       \<union> (if hLatched then {LatchedStopRequest} else {})"

text \<open>The body of the loop "handle mute and pattern requests" for one track.\<close>

definition handleTrackRequests ::
  "TrackRequest set \<Rightarrow> TrackRequest set \<Rightarrow> nat \<Rightarrow> Engine \<times> bool \<Rightarrow> Engine \<times> bool" where
  "handleTrackRequests mr pr i acc =
     (let e = fst acc;
          ts = trackStates (playState (project e)) ! i;
          ts1 = (if TrackState_hasRequests ts mr then ts\<lparr>mute := requestedMute ts\<rparr> else ts);
          fires = TrackState_hasRequests ts1 pr;
          ts2 = (if fires then ts1\<lparr>pattern := requestedPattern ts1\<rparr> else ts1);
          ts3 = TrackState_clearRequests (mr \<union> pr) ts2
      in (modifyTrackState i (\<lambda>_. ts3) e, snd acc \<or> fires))"

definition handleMuteAndPatternRequests :: "bool \<Rightarrow> bool \<Rightarrow> Engine \<Rightarrow> Engine \<times> bool" where
  "handleMuteAndPatternRequests hSynced hLatched e =
     foldl (\<lambda>acc i. handleTrackRequests (muteRequests hSynced hLatched)
                      (patternRequests hSynced hLatched) i acc)
       (e, False) [0..<CONFIG_TRACK_COUNT e]"

text \<open>\<^verbatim>\<open>playState.trackState(i).setPattern(slot.pattern(i))\<close> for every track.\<close>

definition applySlotPatterns :: "Slot \<Rightarrow> Engine \<Rightarrow> Engine" where
  "applySlotPatterns slot e =
     foldl (\<lambda>e' i. modifyTrackState i (\<lambda>ts. ts\<lparr>pattern := patterns slot ! i\<rparr>) e')
       e [0..<CONFIG_TRACK_COUNT e]"

text \<open>
  The block "handle song requests"; the second component of the result is
  \<^verbatim>\<open>switchToNextSlot\<close>, which a Play request that is carried out sets to false.
\<close>

definition handlePlayRequest :: "SongRequest set \<Rightarrow> bool \<Rightarrow> Engine \<Rightarrow> error + Engine \<times> bool" where
  "handlePlayRequest playR sw e =
     (let ss = songState (playState (project e)); sg = song (project e) in
      if SongState_hasRequests ss playR then
        (if requestedSlot ss \<ge> 0 \<and> requestedSlot ss < slotCount sg then
           bindE (Song_slot sg (requestedSlot ss)) (\<lambda>slot.
             let e1 = applySlotPatterns slot e;
                 ss1 = songState (playState (project e1))
             in Inr (setSongState
                       (ss1\<lparr>currentSlot := requestedSlot ss, currentRepeat := 0, playing := True\<rparr>)
                       e1, False))
         else Inr (e, sw))
      else Inr (e, sw))"

definition handleSongRequests ::
  "bool \<Rightarrow> bool \<Rightarrow> bool \<Rightarrow> bool \<Rightarrow> Engine \<Rightarrow> error + Engine \<times> bool" where
  "handleSongRequests hSynced hLatched changedPatterns sw e =
     (let playR = playRequests hSynced hLatched; stopR = stopRequests hSynced hLatched in
      bindE (handlePlayRequest playR sw e) (\<lambda>r.
        let e1 = fst r;
            ss1 = songState (playState (project e1));
            ss2 = (if changedPatterns \<or> SongState_hasRequests ss1 stopR
                   then ss1\<lparr>playing := False\<rparr> else ss1)
        in Inr (setSongState (SongState_clearRequests (playR \<union> stopR) ss2) e1, snd r)))"

text \<open>
  Modelled from the spec: the bucket flags of \<^verbatim>\<open>PlayState\<close> are cleared by
  \<^verbatim>\<open>clearImmediateRequests\<close>, \<^verbatim>\<open>clearSyncedRequests\<close> and \<^verbatim>\<open>clearLatchedRequests\<close>.
\<close>

definition clearPendingRequests :: "bool \<Rightarrow> bool \<Rightarrow> Engine \<Rightarrow> Engine" where
  "clearPendingRequests hSynced hLatched e =
     (let ps = (playState (project e))\<lparr>hasImmediateRequests := False\<rparr>;
          ps1 = (if hSynced then ps\<lparr>hasSyncedRequests := False\<rparr> else ps);
          ps2 = (if hLatched then ps1\<lparr>hasLatchedRequests := False, executeLatchedRequests := False\<rparr>
                 else ps1)
      in setPlayState ps2 e)"

text \<open>The block "handle song slot change", entered when the song plays and the slot switch is due.\<close>

definition nextSongState :: "Song \<Rightarrow> Slot \<Rightarrow> SongState \<Rightarrow> SongState" where
  "nextSongState sg slot ss =
     (if currentRepeat ss + 1 < repeats slot then ss\<lparr>currentRepeat := currentRepeat ss + 1\<rparr>
      else ss\<lparr>currentRepeat := 0,
              currentSlot := (if currentSlot ss + 1 < slotCount sg then currentSlot ss + 1 else 0)\<rparr>)"

definition updatePatternStep :: "Slot \<Rightarrow> nat \<Rightarrow> Engine \<Rightarrow> error + Engine" where
  "updatePatternStep slot i e =
     callTrackEngine i ResetEngine (modifyTrackState i (\<lambda>ts. ts\<lparr>pattern := patterns slot ! i\<rparr>) e)"

definition handleSongSlotChange :: "Engine \<Rightarrow> error + Engine" where
  "handleSongSlotChange e =
     (let ss = songState (playState (project e)); sg = song (project e) in
      bindE (Song_slot sg (currentSlot ss)) (\<lambda>slot.
        let e1 = setSongState (nextSongState sg slot ss) e in
        bindE (Song_slot sg (currentSlot (songState (playState (project e1))))) (\<lambda>slot'.
          foldE (updatePatternStep slot') [0..<CONFIG_TRACK_COUNT e1] e1)))"

text \<open>The final loop: mute, fill and pattern of every track state go to its engine.\<close>

definition pushTrackState :: "nat \<Rightarrow> Engine \<Rightarrow> error + Engine" where
  "pushTrackState i e =
     (let ts = trackStates (playState (project e)) ! i in
      bindE (callTrackEngine i (SetMute (mute ts)) e) (\<lambda>e1.
      bindE (callTrackEngine i (SetFill (fill ts)) e1) (\<lambda>e2.
      callTrackEngine i (SetPattern (pattern ts)) e2)))"

definition pushTrackStates :: "Engine \<Rightarrow> error + Engine" where
  "pushTrackStates e = foldE pushTrackState [0..<CONFIG_TRACK_COUNT e] e"

text \<open>
  \<^verbatim>\<open>updatePlayState\<close> computes \<^verbatim>\<open>handleSyncedRequests\<close> and \<^verbatim>\<open>switchToNextSlot\<close> from the
  tick (the remainder by a zero divisor is the error \<open>DivisionByZero\<close>);
  \<open>updatePlayStateBody\<close> is the rest of the function for given values of the two.
\<close>

definition updatePlayStateBody :: "bool \<Rightarrow> bool \<Rightarrow> Engine \<Rightarrow> error + Engine" where
  "updatePlayStateBody hSynced sw e =
     (let ps = playState (project e);
          hLatched = executeLatchedRequests ps;
          hasRequests = (hasImmediateRequests ps \<or> hasSyncedRequests ps \<or> hLatched);
          r1 = (if hasRequests then handleMuteAndPatternRequests hSynced hLatched e
                else (e, False))
      in bindE (if hasRequests then handleSongRequests hSynced hLatched (snd r1) sw (fst r1)
                else Inr (fst r1, sw)) (\<lambda>r2.
           let e3 = (if hasRequests then clearPendingRequests hSynced hLatched (fst r2)
                     else fst r2);
               sw' = snd r2
           in bindE (if playing (songState (playState (project e3))) \<and> sw'
                     then handleSongSlotChange e3 else Inr e3) (\<lambda>e4.
                if hasRequests \<or> sw' then pushTrackStates e4 else Inr e4)))"

definition updatePlayState :: "bool \<Rightarrow> Engine \<Rightarrow> error + Engine" where
  "updatePlayState ticked e =
     (if measureDivisor e = 0 then Inl DivisionByZero
      else updatePlayStateBody (handleSyncedRequests e) (switchToNextSlot ticked e) e)"

subsection \<open>Track engine slots: \<^verbatim>\<open>Engine::updateTrackSetups\<close>, \<^verbatim>\<open>Engine::resetTrackEngines\<close>\<close>

text \<open>
  \<^verbatim>\<open>trackEngine = trackContainer.create<...>(track, linkedTrackEngine)\<close>: the slot holds a
  new engine of the given mode; its idle output flag starts cleared.
\<close>

definition createTrackEngine :: "TrackMode \<Rightarrow> nat option \<Rightarrow> nat \<Rightarrow> Engine \<Rightarrow> Engine" where
  "createTrackEngine m linked i e =
     emit (TrackEv i (Create m linked))
       (e\<lparr>trackEngines := (trackEngines e)
            [i := Some \<lparr>engineTrackMode = m, linkedTrackEngine = linked, idleOutput = False\<rparr>]\<rparr>)"

text \<open>The \<^verbatim>\<open>switch (track.trackMode())\<close>: the case \<^verbatim>\<open>Last\<close> is an empty branch.\<close>

definition reconstructTrackEngine :: "TrackMode \<Rightarrow> nat option \<Rightarrow> nat \<Rightarrow> Engine \<Rightarrow> Engine" where
  "reconstructTrackEngine m linked i e =
     (case m of
        TrackMode_Note \<Rightarrow> createTrackEngine TrackMode_Note linked i e
      | TrackMode_Curve \<Rightarrow> createTrackEngine TrackMode_Curve linked i e
      | TrackMode_MidiCv \<Rightarrow> createTrackEngine TrackMode_MidiCv linked i e
      | TrackMode_Last \<Rightarrow> e)"

text \<open>
  One iteration of the loop of \<^verbatim>\<open>updateTrackSetups\<close>. The three calls after the switch
  (\<^verbatim>\<open>setMute\<close>, \<^verbatim>\<open>setFill\<close>, \<^verbatim>\<open>setPattern\<close> from the track state) go through the slot's
  pointer, as do the calls of \<open>pushTrackState\<close>.
\<close>

definition needsSetup :: "TrackEngine option \<Rightarrow> Track \<Rightarrow> bool" where
  "needsSetup slot track =
     (case slot of None \<Rightarrow> True | Some te \<Rightarrow> engineTrackMode te \<noteq> trackMode track)"

text \<open>
  \<^verbatim>\<open>linkTrack >= 0 ? &trackEngine(linkTrack) : nullptr\<close>: \<^verbatim>\<open>trackEngine(index)\<close> is
  \<^verbatim>\<open>*_trackEngines[index]\<close>, so a non-negative link is looked up in the slot array and
  the slot must hold an engine; the linked engine is referred to by its slot index.
\<close>

definition linkedEngine :: "int \<Rightarrow> Engine \<Rightarrow> error + nat option" where
  "linkedEngine l e =
     (if l \<ge> 0 then bindE (getTrackEngine (nat l) e) (\<lambda>te. Inr (Some (nat l))) else Inr None)"

definition updateTrackSetup :: "nat \<Rightarrow> Engine \<Rightarrow> error + Engine" where
  "updateTrackSetup i e =
     (let track = tracks (project e) ! i in
      bindE (if needsSetup (trackEngines e ! i) track then
               bindE (linkedEngine (linkTrack track) e) (\<lambda>linked.
                 pushTrackState i (reconstructTrackEngine (trackMode track) linked i e))
             else Inr e) (\<lambda>e1.
        callTrackEngine i (SetSwing (swing (project e1))) e1))"

definition updateTrackSetups :: "Engine \<Rightarrow> error + Engine" where
  "updateTrackSetups e = foldE updateTrackSetup [0..<CONFIG_TRACK_COUNT e] e"

definition resetTrackEngines :: "Engine \<Rightarrow> error + Engine" where
  "resetTrackEngines e = foldE (\<lambda>i. callTrackEngine i ResetEngine) [0..<CONFIG_TRACK_COUNT e] e"

subsection \<open>Output wiring: \<^verbatim>\<open>Engine::updateTrackOutputs\<close>, \<^verbatim>\<open>Engine::updateOverrides\<close>\<close>

definition setGate :: "nat \<Rightarrow> bool \<Rightarrow> Engine \<Rightarrow> Engine" where
  "setGate i v e = emit (SetGate i v) (e\<lparr>gates := (gates e)[i := v]\<rparr>)"

definition setGates :: "bool list \<Rightarrow> Engine \<Rightarrow> Engine" where
  "setGates v e = emit (SetGates v) (e\<lparr>gates := v\<rparr>)"

definition setChannel :: "nat \<Rightarrow> real \<Rightarrow> Engine \<Rightarrow> Engine" where
  "setChannel i v e = emit (SetChannel i v) (e\<lparr>channels := (channels e)[i := v]\<rparr>)"

definition clearIdleOutput :: "nat \<Rightarrow> Engine \<Rightarrow> error + Engine" where
  "clearIdleOutput i e =
     bindE (getTrackEngine i e) (\<lambda>te.
       Inr (emit (TrackEv i ClearIdleOutput)
              (e\<lparr>trackEngines := (trackEngines e)[i := Some (te\<lparr>idleOutput := False\<rparr>)]\<rparr>)))"

text \<open>
  The gate half of one iteration: the source engine is dereferenced, asked for its idle or
  playing gate at the next sub-index of that source, and the counter of the source is
  incremented.
\<close>

definition gateOutputStep ::
  "bool \<Rightarrow> nat \<Rightarrow> Engine \<times> nat list \<Rightarrow> error + Engine \<times> nat list" where
  "gateOutputStep isIdle' trackIndex st =
     (let e = fst st; trackGateIndex = snd st;
          gateOutputTrack = gateOutputTracks (project e) ! trackIndex
      in if \<not> gateOutputOverride e then
           bindE (getTrackEngine gateOutputTrack e) (\<lambda>te.
             let k = trackGateIndex ! gateOutputTrack in
             if isIdle' \<and> idleOutput te then
               Inr (setGate trackIndex (trackIdleGateOutput e gateOutputTrack k)
                      (emit (TrackEv gateOutputTrack (IdleGateOutput k)) e),
                    trackGateIndex[gateOutputTrack := k + 1])
             else
               Inr (setGate trackIndex (trackGateOutput e gateOutputTrack k)
                      (emit (TrackEv gateOutputTrack (GateOutput k)) e),
                    trackGateIndex[gateOutputTrack := k + 1]))
         else Inr (e, trackGateIndex))"

definition cvOutputStep ::
  "bool \<Rightarrow> nat \<Rightarrow> Engine \<times> nat list \<Rightarrow> error + Engine \<times> nat list" where
  "cvOutputStep isIdle' trackIndex st =
     (let e = fst st; trackCvIndex = snd st;
          cvOutputTrack = cvOutputTracks (project e) ! trackIndex
      in if \<not> cvOutputOverride e then
           bindE (getTrackEngine cvOutputTrack e) (\<lambda>te.
             let k = trackCvIndex ! cvOutputTrack in
             if isIdle' \<and> idleOutput te then
               Inr (setChannel trackIndex (trackIdleCvOutput e cvOutputTrack k)
                      (emit (TrackEv cvOutputTrack (IdleCvOutput k)) e),
                    trackCvIndex[cvOutputTrack := k + 1])
             else
               Inr (setChannel trackIndex (trackCvOutput e cvOutputTrack k)
                      (emit (TrackEv cvOutputTrack (CvOutput k)) e),
                    trackCvIndex[cvOutputTrack := k + 1]))
         else Inr (e, trackCvIndex))"

text \<open>One iteration of the second loop; the state is the engine and the two counter arrays.\<close>

definition trackOutputStep ::
  "bool \<Rightarrow> nat \<Rightarrow> Engine \<times> nat list \<times> nat list \<Rightarrow> error + Engine \<times> nat list \<times> nat list" where
  "trackOutputStep isIdle' trackIndex st =
     (let e = fst st; trackGateIndex = fst (snd st); trackCvIndex = snd (snd st) in
      bindE (if int trackIndex \<noteq> selectedTrackIndex (project e)
             then clearIdleOutput trackIndex e else Inr e) (\<lambda>e1.
      bindE (gateOutputStep isIdle' trackIndex (e1, trackGateIndex)) (\<lambda>g.
      bindE (cvOutputStep isIdle' trackIndex (fst g, trackCvIndex)) (\<lambda>c.
        Inr (fst c, snd g, snd c)))))"

definition updateTrackOutputs :: "Engine \<Rightarrow> error + Engine" where
  "updateTrackOutputs e =
     (let n = CONFIG_TRACK_COUNT e in
      bindE (foldE (trackOutputStep (isIdle (clock e))) [0..<n] (e, replicate n 0, replicate n 0))
        (\<lambda>st. Inr (fst st)))"

definition updateOverrides :: "Engine \<Rightarrow> Engine" where
  "updateOverrides e =
     (let e1 = (if gateOutputOverride e then setGates (gateOutputOverrideValue e) e else e) in
      if cvOutputOverride e1 then
        foldl (\<lambda>e' i. setChannel i (cvOutputOverrideValues e' ! i) e') e1
          [0..<length (cvOutputOverrideValues e1)]
      else e1)"

subsection \<open>MIDI ingress: \<^verbatim>\<open>Engine::receiveMidi\<close>\<close>

definition receiveMidiMessage :: "MidiPort \<Rightarrow> MidiMessage \<Rightarrow> Engine \<Rightarrow> error + Engine" where
  "receiveMidiMessage port message e =
     (let e1 = emit (RoutingReceiveMidi port message) (emit (MidiLearnReceiveMidi port message) e);
          e2 = (if midiReceiveHandler e1 then emit (MidiReceiveHandler port message) e1 else e1)
      in foldE (\<lambda>i. callTrackEngine i (ReceiveMidi port (channel message) message))
           [0..<CONFIG_TRACK_COUNT e2] e2)"

text \<open>One iteration of a \<^verbatim>\<open>while (port.recv(&message))\<close> loop: the message leaves the queue.\<close>

definition recvStep :: "MidiPort \<Rightarrow> MidiMessage \<Rightarrow> Engine \<Rightarrow> error + Engine" where
  "recvStep port message e =
     receiveMidiMessage port message
       (case port of Port_Midi \<Rightarrow> e\<lparr>midi := tl (midi e)\<rparr>
                   | Port_UsbMidi \<Rightarrow> e\<lparr>usbMidi := tl (usbMidi e)\<rparr>)"

definition receiveMidi :: "Engine \<Rightarrow> error + Engine" where
  "receiveMidi e =
     bindE (foldE (recvStep Port_Midi) (midi e) e)
       (\<lambda>e1. foldE (recvStep Port_UsbMidi) (usbMidi e1) e1)"

subsection \<open>Clock integration: \<^verbatim>\<open>Engine::initClock\<close>, \<^verbatim>\<open>Engine::updateClockSetup\<close>\<close>

definition clockCall :: "ClockCall \<Rightarrow> Engine \<Rightarrow> Engine" where
  "clockCall c e = emit (ClockEv c) e"

text \<open>The handler installed on \<^verbatim>\<open>_dio.clockInput\<close> (interrupt context).\<close>

definition clockInputHandler :: "bool \<Rightarrow> Engine \<Rightarrow> Engine" where
  "clockInputHandler v e =
     (let e1 = (if clockInputMode (clockSetup (project e)) = ClockInputMode_Reset
                   \<and> \<not> isRunning (clock e) \<and> \<not> resetInput e
                then clockCall (SlaveStart ClockSourceExternal) e else e)
      in if v then clockCall (SlaveTick ClockSourceExternal) e1 else e1)"

text \<open>The handler installed on \<^verbatim>\<open>_dio.resetInput\<close> (interrupt context).\<close>

definition resetInputHandler :: "bool \<Rightarrow> Engine \<Rightarrow> Engine" where
  "resetInputHandler v e =
     (case clockInputMode (clockSetup (project e)) of
        ClockInputMode_Reset \<Rightarrow>
          (if v then clockCall (SlaveReset ClockSourceExternal) e
           else clockCall (SlaveStart ClockSourceExternal) e)
      | ClockInputMode_Run \<Rightarrow>
          (if v then clockCall (SlaveContinue ClockSourceExternal) e
           else clockCall (SlaveStop ClockSourceExternal) e)
      | ClockInputMode_StartStop \<Rightarrow>
          (if v then clockCall (SlaveStart ClockSourceExternal) e
           else clockCall (SlaveReset ClockSourceExternal)
                  (clockCall (SlaveStop ClockSourceExternal) e))
      | ClockInputMode_Last \<Rightarrow> e)"

definition onClockOutput :: "OutputState \<Rightarrow> Engine \<Rightarrow> Engine" where
  "onClockOutput st e =
     (let e1 = emit (DioClockOutput (out_clock st)) e in
      case clockOutputMode (clockSetup (project e1)) of
        ClockOutputMode_Reset \<Rightarrow> emit (DioResetOutput (out_reset st)) e1
      | ClockOutputMode_Run \<Rightarrow> emit (DioResetOutput (out_run st)) e1
      | ClockOutputMode_Last \<Rightarrow> e1)"

definition updateClockSetup :: "Engine \<Rightarrow> Engine" where
  "updateClockSetup e =
     (let cs = clockSetup (project e) in
      if \<not> dirty cs then e
      else
        let e1 = (case mode cs of
                    Mode_Auto \<Rightarrow> clockCall (SetMode Clock_Auto) e
                  | Mode_Master \<Rightarrow> clockCall (SetMode Clock_Master) e
                  | Mode_Slave \<Rightarrow> clockCall (SetMode Clock_Slave) e
                  | Mode_Last \<Rightarrow> e);
            e2 = clockCall (SlaveConfigure ClockSourceExternal (clockInputDivisor cs) True) e1;
            e3 = clockCall (SlaveConfigure ClockSourceMidi (int (CONFIG_PPQN e div 24)) (midiRx cs)) e2;
            e4 = clockCall (SlaveConfigure ClockSourceUsbMidi (int (CONFIG_PPQN e div 24)) (usbRx cs)) e3;
            rst = resetInput e4;
            run = isRunning (clock e4);
            e5 = (case clockInputMode cs of
                    ClockInputMode_Reset \<Rightarrow>
                      (if rst \<and> run then clockCall (SlaveReset ClockSourceExternal) e4
                       else if \<not> rst \<and> \<not> run then clockCall (SlaveStart ClockSourceExternal) e4
                       else e4)
                  | ClockInputMode_Run \<Rightarrow>
                      (if rst \<and> \<not> run then clockCall (SlaveContinue ClockSourceExternal) e4
                       else if \<not> rst \<and> run then clockCall (SlaveStop ClockSourceExternal) e4
                       else e4)
                  | ClockInputMode_StartStop \<Rightarrow>
                      (if rst \<and> \<not> run then clockCall (SlaveStart ClockSourceExternal) e4
                       else if \<not> rst \<and> run then clockCall (SlaveReset ClockSourceExternal) e4
                       else e4)
                  | ClockInputMode_Last \<Rightarrow> e4);
            e6 = clockCall (OutputConfigure (clockOutputDivisor cs) (clockOutputPulse cs)) e5;
            e7 = onClockOutput (outputState (clock e6)) e6
        in e7\<lparr>project := (project e7)\<lparr>clockSetup := (clockSetup (project e7))\<lparr>dirty := False\<rparr>\<rparr>\<rparr>)"

subsection \<open>The update loop: \<^verbatim>\<open>Engine::update\<close>\<close>

text \<open>Lock transition (the two \<^verbatim>\<open>if\<close> statements under "locking").\<close>

definition lockTransition :: "Engine \<Rightarrow> Engine" where
  "lockTransition e =
     (let e1 = (if requestLock e \<noteq> 0
                then (clockCall MasterStop e)\<lparr>requestLock := 0, locked := 1\<rparr> else e)
      in if requestUnlock e1 \<noteq> 0 then e1\<lparr>requestUnlock := 0, locked := 0\<rparr> else e1)"

text \<open>The locked branch: the tick queue and both MIDI queues are consumed and dropped.\<close>

definition lockedUpdate :: "Engine \<Rightarrow> Engine" where
  "lockedUpdate e =
     emit CvOutputUpdate
       (updateOverrides (e\<lparr>clock := (clock e)\<lparr>tickQueue := []\<rparr>, midi := [], usbMidi := []\<rparr>))"

definition processClockEvent :: "ClockEvent \<Rightarrow> Engine \<Rightarrow> error + Engine" where
  "processClockEvent ev e =
     (let e1 = e\<lparr>clock := (clock e)\<lparr>eventQueue := tl (eventQueue (clock e))\<rparr>\<rparr> in
      case ev of
        Clock_Start \<Rightarrow> resetTrackEngines (e1\<lparr>running := True\<rparr>)
      | Clock_Stop \<Rightarrow> Inr (e1\<lparr>running := False\<rparr>)
      | Clock_Continue \<Rightarrow> Inr (e1\<lparr>running := True\<rparr>)
      | Clock_Reset \<Rightarrow> resetTrackEngines (e1\<lparr>running := False\<rparr>))"

text \<open>One iteration of the tick loop.\<close>

definition tickStep :: "u32 \<Rightarrow> Engine \<Rightarrow> error + Engine" where
  "tickStep t e =
     (let e1 = e\<lparr>clock := (clock e)\<lparr>tickQueue := tl (tickQueue (clock e))\<rparr>, tick := t\<rparr> in
      bindE (updatePlayState True e1) (\<lambda>e2.
      bindE (foldE (\<lambda>i. callTrackEngine i (TickEngine t)) [0..<CONFIG_TRACK_COUNT e2] e2) (\<lambda>e3.
        updateTrackOutputs e3)))"

definition tickLoop :: "Engine \<Rightarrow> error + Engine" where
  "tickLoop e =
     (if tickQueue (clock e) = [] then updateTrackOutputs e
      else foldE tickStep (tickQueue (clock e)) e)"

definition updateTempo :: "real \<Rightarrow> Engine \<Rightarrow> Engine" where
  "updateTempo dt e =
     (let e1 = emit (NudgeTempoUpdate dt) (e\<lparr>nudgeStrength := nudgeEffect e dt (nudgeStrength e)\<rparr>)
      in clockCall (SetMasterBpm (bpm (project e1) + nudgeStrength e1 * 10)) e1)"

definition unlockedUpdate :: "real \<Rightarrow> Engine \<Rightarrow> error + Engine" where
  "unlockedUpdate dt e =
     bindE (foldE processClockEvent (eventQueue (clock e)) e) (\<lambda>e1.
     bindE (receiveMidi e1) (\<lambda>e2.
     bindE (updateTrackSetups (updateClockSetup (updateTempo dt e2))) (\<lambda>e3.
     bindE (updatePlayState False e3) (\<lambda>e4.
       let e5 = emit CvInputUpdate e4;
           e6 = emit RoutingUpdate (e5\<lparr>project := routingEffect e5 (project e5)\<rparr>)
       in bindE (tickLoop e6) (\<lambda>e7.
          bindE (foldE (\<lambda>i. callTrackEngine i (UpdateEngine dt)) [0..<CONFIG_TRACK_COUNT e7] e7)
            (\<lambda>e8. Inr (emit CvOutputUpdate (updateOverrides e8))))))))"

text \<open>\<^verbatim>\<open>update()\<close>, given the value \<^verbatim>\<open>os::ticks()\<close> returns.\<close>

definition update :: "u32 \<Rightarrow> Engine \<Rightarrow> error + Engine" where
  "update systemTicks e0 =
     (let dt = (0.001 * real (unat (systemTicks - lastSystemTicks e0))) / real (os_time_ms1 e0);
          e = lockTransition (e0\<lparr>lastSystemTicks := systemTicks\<rparr>)
      in if locked e \<noteq> 0 then Inr (lockedUpdate e) else unlockedUpdate dt e)"

subsection \<open>A concrete engine\<close>

text \<open>
  Two tracks with Note engines, 192 PPQN and a sync measure of one bar (768 ticks), a
  song of two slots with one repeat each, playing on slot 0; nothing pending.
\<close>

definition scenarioTrackState :: TrackState where
  "scenarioTrackState =
     \<lparr>mute = False, requestedMute = False, fill = False, pattern = 0, requestedPattern = 0,
      requests = {}\<rparr>"

definition scenarioPlayState :: PlayState where
  "scenarioPlayState =
     \<lparr>trackStates = [scenarioTrackState, scenarioTrackState],
      songState = \<lparr>currentSlot = 0, currentRepeat = 0, requestedSlot = 0, playing = True,
                   songRequests = {}\<rparr>,
      hasImmediateRequests = False, hasSyncedRequests = False, hasLatchedRequests = False,
      executeLatchedRequests = False\<rparr>"

definition scenarioProject :: Project where
  "scenarioProject =
     \<lparr>bpm = 120, swing = 50, syncMeasure = 1, selectedTrackIndex = 0,
      tracks = [\<lparr>trackMode = TrackMode_Note, linkTrack = - 1\<rparr>,
                \<lparr>trackMode = TrackMode_Note, linkTrack = - 1\<rparr>],
      gateOutputTracks = [0, 1], cvOutputTracks = [0, 1],
      playState = scenarioPlayState,
      song = \<lparr>slots = [\<lparr>patterns = [0, 0], repeats = 1\<rparr>, \<lparr>patterns = [1, 1], repeats = 1\<rparr>],
               slotCount = 2\<rparr>,
      clockSetup = \<lparr>mode = Mode_Auto, clockInputMode = ClockInputMode_Reset,
                     clockInputDivisor = 12, clockOutputMode = ClockOutputMode_Reset,
                     clockOutputDivisor = 12, clockOutputPulse = 1,
                     midiRx = True, usbRx = True, midiTx = True, usbTx = True, dirty = False\<rparr>\<rparr>"

definition scenarioTrackEngine :: TrackEngine where
  "scenarioTrackEngine =
     \<lparr>engineTrackMode = TrackMode_Note, linkedTrackEngine = None, idleOutput = False\<rparr>"

definition scenarioEngine :: Engine where
  "scenarioEngine =
     \<lparr>project = scenarioProject,
      clock = \<lparr>tickQueue = [], eventQueue = [], isRunning = False, isIdle = True,
                outputState = \<lparr>out_clock = False, out_reset = False, out_run = False\<rparr>\<rparr>,
      resetInput = False, midi = [], usbMidi = [],
      gates = [False, False], channels = [0, 0],
      trackEngines = [Some scenarioTrackEngine, Some scenarioTrackEngine],
      trackGateOutput = (\<lambda>t k. True), trackIdleGateOutput = (\<lambda>t k. False),
      trackCvOutput = (\<lambda>t k. 1), trackIdleCvOutput = (\<lambda>t k. 2),
      routingEffect = (\<lambda>p. p), nudgeStrength = 0, nudgeEffect = (\<lambda>dt s. s),
      midiReceiveHandler = False,
      tick = 0, lastSystemTicks = 0, running = False,
      locked = 0, requestLock = 0, requestUnlock = 0,
      gateOutputOverride = False, gateOutputOverrideValue = [False, False],
      cvOutputOverride = False, cvOutputOverrideValues = [0, 0],
      CONFIG_PPQN = 192, os_time_ms1 = 1, trace = []\<rparr>"

subsection \<open>Events a part of the cycle must not produce\<close>

text \<open>
  Outside the lock transition and \<open>updateOverrides\<close>, the engine never stops the master
  clock and never writes all gates at once; while the gate (CV) override is active it
  neither asks a track engine for a gate (CV) value nor writes a single gate (channel).
  \<open>controlFrame e e'\<close>: from \<open>e\<close> to \<open>e'\<close> the lock and override fields are unchanged and the
  trace grew by events that are not forbidden.
\<close>

fun forbidden :: "Engine \<Rightarrow> Event \<Rightarrow> bool" where
  "forbidden e (ClockEv c) = (c = MasterStop)"
| "forbidden e (TrackEv t c) =
     (case c of
        GateOutput k \<Rightarrow> gateOutputOverride e
      | IdleGateOutput k \<Rightarrow> gateOutputOverride e
      | CvOutput k \<Rightarrow> cvOutputOverride e
      | IdleCvOutput k \<Rightarrow> cvOutputOverride e
      | _ \<Rightarrow> False)"
| "forbidden e (SetGate i v) = gateOutputOverride e"
| "forbidden e (SetChannel i v) = cvOutputOverride e"
| "forbidden e (SetGates v) = True"
| "forbidden e _ = False"

definition controlFrame :: "Engine \<Rightarrow> Engine \<Rightarrow> bool" where
  "controlFrame e e' =
     (locked e' = locked e \<and> requestLock e' = requestLock e \<and> requestUnlock e' = requestUnlock e
      \<and> gateOutputOverride e' = gateOutputOverride e
      \<and> gateOutputOverrideValue e' = gateOutputOverrideValue e
      \<and> cvOutputOverride e' = cvOutputOverride e
      \<and> cvOutputOverrideValues e' = cvOutputOverrideValues e
      \<and> (\<exists>tr. trace e' = trace e @ tr \<and> list_all (\<lambda>ev. \<not> forbidden e ev) tr))"

subsection \<open>What \<open>updateOverrides\<close> writes\<close>

definition overrideChannels :: "real list \<Rightarrow> real list \<Rightarrow> real list" where
  "overrideChannels vals ch = foldl (\<lambda>ch i. ch[i := vals ! i]) ch [0..<length vals]"

definition overrideEvents :: "Engine \<Rightarrow> Event list" where
  "overrideEvents e =
     (if gateOutputOverride e then [SetGates (gateOutputOverrideValue e)] else [])
     @ (if cvOutputOverride e
        then map (\<lambda>i. SetChannel i (cvOutputOverrideValues e ! i))
               [0..<length (cvOutputOverrideValues e)]
        else [])"

subsection \<open>Concrete cycles\<close>

text \<open>
  S3: the engine is locked while track 0 carries an ImmediateMuteRequest; a tick and a
  MIDI message are pending.
\<close>

definition lockedScenario :: Engine where
  "lockedScenario =
     modifyTrackState 0 (\<lambda>ts. ts\<lparr>requestedMute := True, requests := {ImmediateMuteRequest}\<rparr>)
       (setPlayState (scenarioPlayState\<lparr>hasImmediateRequests := True\<rparr>)
          (scenarioEngine\<lparr>locked := 1,
             clock := (clock scenarioEngine)\<lparr>tickQueue := [5]\<rparr>,
             midi := [\<lparr>channel = 0, payload = [144, 60, 100]\<rparr>]\<rparr>))"

text \<open>The same locked engine with a lock request pending as well.\<close>

definition lockRequestedScenario :: Engine where
  "lockRequestedScenario = lockedScenario\<lparr>requestLock := 1\<rparr>"

text \<open>S6: both overrides are active, the transport runs and one tick is pending.\<close>

definition overrideScenario :: Engine where
  "overrideScenario =
     scenarioEngine\<lparr>gateOutputOverride := True, gateOutputOverrideValue := [True, False],
       cvOutputOverride := True, cvOutputOverrideValues := [1, 2],
       clock := (clock scenarioEngine)\<lparr>tickQueue := [767], isIdle := False\<rparr>\<rparr>"

text \<open>A lock request and an unlock request are both pending.\<close>

definition lockUnlockScenario :: Engine where
  "lockUnlockScenario = scenarioEngine\<lparr>requestLock := 1, requestUnlock := 1\<rparr>"

subsection \<open>What the song slot change writes\<close>

text \<open>
  The track states after \<^verbatim>\<open>setPattern(slot.pattern(i))\<close> for the tracks \<open>xs\<close>, and the calls by
  which the final loop of \<open>updatePlayState\<close> hands one track state to its engine.
\<close>

definition emitAll :: "Event list \<Rightarrow> Engine \<Rightarrow> Engine" where
  "emitAll evs e = e\<lparr>trace := trace e @ evs\<rparr>"

definition slotPatternStates :: "Slot \<Rightarrow> nat list \<Rightarrow> TrackState list \<Rightarrow> TrackState list" where
  "slotPatternStates slot xs tss =
     foldl (\<lambda>tss' i. tss'[i := (tss' ! i)\<lparr>pattern := patterns slot ! i\<rparr>]) tss xs"

definition pushEvents :: "Engine \<Rightarrow> nat \<Rightarrow> Event list" where
  "pushEvents e i =
     (let ts = trackStates (playState (project e)) ! i in
      [TrackEv i (SetMute (mute ts)), TrackEv i (SetFill (fill ts)),
       TrackEv i (SetPattern (pattern ts))])"

definition allEnginesPresent :: "Engine \<Rightarrow> bool" where
  "allEnginesPresent e = list_all (\<lambda>slot. slot \<noteq> None) (trackEngines e)"

definition songPosition :: "Engine \<Rightarrow> int \<times> int" where
  "songPosition e =
     (currentSlot (songState (playState (project e))),
      currentRepeat (songState (playState (project e))))"

definition trackPatterns :: "Engine \<Rightarrow> int list" where
  "trackPatterns e = map pattern (trackStates (playState (project e)))"

text \<open>
  The song plays slot 0, whose repeat count is 2 and whose patterns differ from the
  patterns the tracks play; the tick is the last one of the first measure.
\<close>

definition repeatScenario :: Engine where
  "repeatScenario =
     scenarioEngine\<lparr>tick := 767,
       project := scenarioProject\<lparr>song :=
         \<lparr>slots = [\<lparr>patterns = [3, 4], repeats = 2\<rparr>, \<lparr>patterns = [1, 1], repeats = 1\<rparr>],
          slotCount = 2\<rparr>\<rparr>\<rparr>"

text \<open>
  A Play request for slot 5 of the two-slot song is pending (Immediate); the song is
  stopped on slot 1.
\<close>

definition invalidPlayScenario :: Engine where
  "invalidPlayScenario =
     setPlayState
       (scenarioPlayState\<lparr>hasImmediateRequests := True,
          songState := \<lparr>currentSlot = 1, currentRepeat = 0, requestedSlot = 5, playing = False,
                        songRequests = {ImmediatePlayRequest, SyncedStopRequest}\<rparr>\<rparr>)
       (scenarioEngine\<lparr>tick := 100\<rparr>)"

subsection \<open>What a call of the arbitration writes\<close>

text \<open>
  The request handling of one call, written out from the state at entry. A call handles
  requests when one of the bucket flags is set (\<open>requestsHandled\<close>). For one track state,
  \<open>trackAfterRequests\<close> applies the mute and the pattern request of the given masks and
  clears both masks. A Play request is carried out when one of the play mask is pending
  and \<open>requestedSlot\<close> is a slot of the song; a pattern request fires when some track has
  one of the pattern mask pending; a Stop request fires when one of the stop mask is
  pending. The block "handle song slot change" is entered (\<open>slotChangeDue\<close>) when
  \<^verbatim>\<open>switchToNextSlot\<close> holds and the song still plays after the requests: it played at
  entry, no Play request was carried out (that clears \<^verbatim>\<open>switchToNextSlot\<close>), and no pattern
  or Stop request fired (either stops the song).
\<close>

definition requestsHandled :: "Engine \<Rightarrow> bool" where
  "requestsHandled e =
     (hasImmediateRequests (playState (project e)) \<or> hasSyncedRequests (playState (project e))
      \<or> executeLatchedRequests (playState (project e)))"

definition trackAfterRequests ::
  "TrackRequest set \<Rightarrow> TrackRequest set \<Rightarrow> TrackState \<Rightarrow> TrackState" where
  "trackAfterRequests mr pr ts =
     ts\<lparr>mute := (if requests ts \<inter> mr \<noteq> {} then requestedMute ts else mute ts),
        pattern := (if requests ts \<inter> pr \<noteq> {} then requestedPattern ts else pattern ts),
        requests := requests ts - (mr \<union> pr)\<rparr>"

definition requestedTrackStates ::
  "TrackRequest set \<Rightarrow> TrackRequest set \<Rightarrow> nat list \<Rightarrow> TrackState list \<Rightarrow> TrackState list" where
  "requestedTrackStates mr pr xs tss =
     foldl (\<lambda>tss' i. tss'[i := trackAfterRequests mr pr (tss' ! i)]) tss xs"

definition patternRequestFires :: "bool \<Rightarrow> Engine \<Rightarrow> bool" where
  "patternRequestFires hs e =
     (requestsHandled e
      \<and> list_ex (\<lambda>i. requests (trackStates (playState (project e)) ! i)
                       \<inter> patternRequests hs (executeLatchedRequests (playState (project e))) \<noteq> {})
          [0..<CONFIG_TRACK_COUNT e])"

definition stopRequestFires :: "bool \<Rightarrow> Engine \<Rightarrow> bool" where
  "stopRequestFires hs e =
     (requestsHandled e
      \<and> songRequests (songState (playState (project e)))
          \<inter> stopRequests hs (executeLatchedRequests (playState (project e))) \<noteq> {})"

definition playCarriedOut :: "bool \<Rightarrow> Engine \<Rightarrow> bool" where
  "playCarriedOut hs e =
     (requestsHandled e
      \<and> songRequests (songState (playState (project e)))
          \<inter> playRequests hs (executeLatchedRequests (playState (project e))) \<noteq> {}
      \<and> 0 \<le> requestedSlot (songState (playState (project e)))
      \<and> requestedSlot (songState (playState (project e))) < slotCount (song (project e)))"

definition slotChangeDue :: "bool \<Rightarrow> bool \<Rightarrow> Engine \<Rightarrow> bool" where
  "slotChangeDue hs sw e =
     (sw \<and> playing (songState (playState (project e))) \<and> \<not> playCarriedOut hs e
      \<and> \<not> patternRequestFires hs e \<and> \<not> stopRequestFires hs e)"

definition trackStatesAfterRequests :: "bool \<Rightarrow> Engine \<Rightarrow> TrackState list" where
  "trackStatesAfterRequests hs e =
     (let ps = playState (project e);
          hl = executeLatchedRequests ps;
          n = CONFIG_TRACK_COUNT e;
          tss1 = requestedTrackStates (muteRequests hs hl) (patternRequests hs hl) [0..<n]
                   (trackStates ps)
      in if playCarriedOut hs e
         then slotPatternStates (slots (song (project e)) ! nat (requestedSlot (songState ps)))
                [0..<n] tss1
         else tss1)"

definition songStateAfterRequests :: "bool \<Rightarrow> Engine \<Rightarrow> SongState" where
  "songStateAfterRequests hs e =
     (let ps = playState (project e);
          hl = executeLatchedRequests ps;
          ss = songState ps;
          ss1 = (if playCarriedOut hs e
                 then ss\<lparr>currentSlot := requestedSlot ss, currentRepeat := 0, playing := True\<rparr>
                 else ss);
          ss2 = (if patternRequestFires hs e \<or> stopRequestFires hs e
                 then ss1\<lparr>playing := False\<rparr> else ss1)
      in SongState_clearRequests (playRequests hs hl \<union> stopRequests hs hl) ss2)"

definition afterRequests :: "bool \<Rightarrow> Engine \<Rightarrow> Engine" where
  "afterRequests hs e =
     (if requestsHandled e
      then clearPendingRequests hs (executeLatchedRequests (playState (project e)))
             (setSongState (songStateAfterRequests hs e)
                (setTrackStates (trackStatesAfterRequests hs e) e))
      else e)"

text \<open>
  The state after the block "handle song slot change", the state after the final loop
  that hands every track state to its engine, and the state a returning call leaves.
\<close>

definition slotChanged :: "Engine \<Rightarrow> Engine" where
  "slotChanged e =
     (let sg = song (project e);
          ss = songState (playState (project e));
          next = nextSongState sg (slots sg ! nat (currentSlot ss)) ss;
          n = CONFIG_TRACK_COUNT e
      in emitAll (map (\<lambda>i. TrackEv i ResetEngine) [0..<n])
           (setTrackStates
              (slotPatternStates (slots sg ! nat (currentSlot next)) [0..<n]
                 (trackStates (playState (project e))))
              (setSongState next e)))"

definition handedOver :: "Engine \<Rightarrow> Engine" where
  "handedOver e = emitAll (concat (map (pushEvents e) [0..<CONFIG_TRACK_COUNT e])) e"

definition arbitrated :: "bool \<Rightarrow> bool \<Rightarrow> Engine \<Rightarrow> Engine" where
  "arbitrated hs sw e =
     (let a = afterRequests hs e;
          e4 = (if slotChangeDue hs sw e then slotChanged a else a)
      in if requestsHandled e \<or> sw then handedOver e4 else e4)"

text \<open>
  On the last tick of the first measure the song plays slot 0 (two repeats) while track
  0 has a Synced mute request pending.
\<close>

definition mutePendingScenario :: Engine where
  "mutePendingScenario =
     modifyTrackState 0 (\<lambda>ts. ts\<lparr>requestedMute := True, requests := {SyncedMuteRequest}\<rparr>)
       (setPlayState (scenarioPlayState\<lparr>hasSyncedRequests := True\<rparr>) repeatScenario)"

text \<open>
  Track 0 has a Synced mute request and track 1 a Synced pattern request pending at tick
  \<open>t\<close>; in \<open>syncedPlayScenario\<close> the song is stopped and a Synced Play request for slot 1
  is pending.
\<close>

definition syncedScenario :: "u32 \<Rightarrow> Engine" where
  "syncedScenario t =
     setPlayState
       (scenarioPlayState\<lparr>hasSyncedRequests := True,
          trackStates :=
            [scenarioTrackState\<lparr>requestedMute := True, requests := {SyncedMuteRequest}\<rparr>,
             scenarioTrackState\<lparr>requestedPattern := 5, requests := {SyncedPatternRequest}\<rparr>]\<rparr>)
       (scenarioEngine\<lparr>tick := t\<rparr>)"

definition syncedPlayScenario :: "u32 \<Rightarrow> Engine" where
  "syncedPlayScenario t =
     setPlayState
       (scenarioPlayState\<lparr>hasSyncedRequests := True,
          songState := \<lparr>currentSlot = 0, currentRepeat = 0, requestedSlot = 1, playing = False,
                        songRequests = {SyncedPlayRequest}\<rparr>\<rparr>)
       (scenarioEngine\<lparr>tick := t\<rparr>)"

subsection \<open>The steps of an output pass\<close>

text \<open>
  The events of a pass that concern the outputs, without the values: a track engine is
  asked for a gate or CV value at a sub-index (idle or playing), a gate or channel of a
  physical output is written. \<open>subIndex src i\<close> counts the physical outputs below \<open>i\<close>
  that have the same source track as \<open>i\<close>.
\<close>

datatype OutputStep = GateDraw nat nat | GateWrite nat | CvDraw nat nat | CvWrite nat

fun outputStep :: "Event \<Rightarrow> OutputStep option" where
  "outputStep (TrackEv s c) =
     (case c of
        GateOutput k \<Rightarrow> Some (GateDraw s k)
      | IdleGateOutput k \<Rightarrow> Some (GateDraw s k)
      | CvOutput k \<Rightarrow> Some (CvDraw s k)
      | IdleCvOutput k \<Rightarrow> Some (CvDraw s k)
      | _ \<Rightarrow> None)"
| "outputStep (SetGate i v) = Some (GateWrite i)"
| "outputStep (SetChannel i v) = Some (CvWrite i)"
| "outputStep _ = None"

definition outputSteps :: "Event list \<Rightarrow> OutputStep list" where
  "outputSteps tr = List.map_filter outputStep tr"

definition subIndex :: "nat list \<Rightarrow> nat \<Rightarrow> nat" where
  "subIndex src i = length (filter (\<lambda>j. src ! j = src ! i) [0..<i])"

definition passSteps :: "Engine \<Rightarrow> nat \<Rightarrow> OutputStep list" where
  "passSteps e i =
     (if gateOutputOverride e then []
      else [GateDraw (gateOutputTracks (project e) ! i) (subIndex (gateOutputTracks (project e)) i),
            GateWrite i])
     @ (if cvOutputOverride e then []
        else [CvDraw (cvOutputTracks (project e) ! i) (subIndex (cvOutputTracks (project e)) i),
              CvWrite i])"

text \<open>
  The state of the loop of \<open>updateTrackOutputs\<close> after the outputs below \<open>m\<close>: the model
  and the override flags are as at entry, each counter
  holds the number of outputs below \<open>m\<close> drawn from its track, and the output steps so
  far are those of the outputs below \<open>m\<close> in order.
\<close>

definition sourceCount :: "nat list \<Rightarrow> nat \<Rightarrow> nat \<Rightarrow> nat" where
  "sourceCount src m t = length (filter (\<lambda>j. src ! j = t) [0..<m])"

definition passInv :: "Engine \<Rightarrow> nat \<Rightarrow> Engine \<times> nat list \<times> nat list \<Rightarrow> bool" where
  "passInv e m st =
     (let e' = fst st; tgi = fst (snd st); tci = snd (snd st); n = length (trackEngines e) in
      project e' = project e \<and> length (trackEngines e') = n
      \<and> gateOutputOverride e' = gateOutputOverride e \<and> cvOutputOverride e' = cvOutputOverride e
      \<and> length tgi = n \<and> length tci = n
      \<and> (\<not> gateOutputOverride e \<longrightarrow>
            (\<forall>t<n. tgi ! t = sourceCount (gateOutputTracks (project e)) m t))
      \<and> (\<not> cvOutputOverride e \<longrightarrow>
            (\<forall>t<n. tci ! t = sourceCount (cvOutputTracks (project e)) m t))
      \<and> (\<exists>tr. trace e' = trace e @ tr \<and> outputSteps tr = concat (map (passSteps e) [0..<m])))"

text \<open>
  The events of a pass that concern idle outputs: the idle output of a track is
  cleared, a value (idle or playing) is drawn from a source track, a physical output is
  written. \<open>idleAt e i s\<close>: the value drawn from track \<open>s\<close> for output \<open>i\<close> is the idle one;
  \<open>clearedEngines e m\<close>: the slots after the iterations below \<open>m\<close>.
\<close>

datatype IdleStep = Cleared nat | Drawn bool nat | Written nat

fun idleStep :: "Event \<Rightarrow> IdleStep option" where
  "idleStep (TrackEv s c) =
     (case c of
        ClearIdleOutput \<Rightarrow> Some (Cleared s)
      | GateOutput k \<Rightarrow> Some (Drawn False s)
      | IdleGateOutput k \<Rightarrow> Some (Drawn True s)
      | CvOutput k \<Rightarrow> Some (Drawn False s)
      | IdleCvOutput k \<Rightarrow> Some (Drawn True s)
      | _ \<Rightarrow> None)"
| "idleStep (SetGate i v) = Some (Written i)"
| "idleStep (SetChannel i v) = Some (Written i)"
| "idleStep _ = None"

definition idleSteps :: "Event list \<Rightarrow> IdleStep list" where
  "idleSteps tr = List.map_filter idleStep tr"

definition advertisesIdle :: "TrackEngine option \<Rightarrow> bool" where
  "advertisesIdle slot = (case slot of None \<Rightarrow> False | Some te \<Rightarrow> idleOutput te)"

definition idleAt :: "Engine \<Rightarrow> nat \<Rightarrow> nat \<Rightarrow> bool" where
  "idleAt e i s =
     (isIdle (clock e) \<and> advertisesIdle (trackEngines e ! s)
      \<and> (int s = selectedTrackIndex (project e) \<or> i < s))"

definition clearedEngines :: "Engine \<Rightarrow> nat \<Rightarrow> TrackEngine option list" where
  "clearedEngines e m =
     map (\<lambda>s. map_option
                (\<lambda>te. if int s \<noteq> selectedTrackIndex (project e) \<and> s < m
                       then te\<lparr>idleOutput := False\<rparr> else te)
                (trackEngines e ! s))
       [0..<length (trackEngines e)]"

definition idlePassSteps :: "Engine \<Rightarrow> nat \<Rightarrow> IdleStep list" where
  "idlePassSteps e i =
     (if int i \<noteq> selectedTrackIndex (project e) then [Cleared i] else [])
     @ (if gateOutputOverride e then []
        else [Drawn (idleAt e i (gateOutputTracks (project e) ! i)) (gateOutputTracks (project e) ! i),
              Written i])
     @ (if cvOutputOverride e then []
        else [Drawn (idleAt e i (cvOutputTracks (project e) ! i)) (cvOutputTracks (project e) ! i),
              Written i])"

definition idleInv :: "Engine \<Rightarrow> nat \<Rightarrow> Engine \<times> nat list \<times> nat list \<Rightarrow> bool" where
  "idleInv e m st =
     (project (fst st) = project e \<and> trackEngines (fst st) = clearedEngines e m
      \<and> gateOutputOverride (fst st) = gateOutputOverride e
      \<and> cvOutputOverride (fst st) = cvOutputOverride e
      \<and> (\<exists>tr. trace (fst st) = trace e @ tr
            \<and> idleSteps tr = concat (map (idlePassSteps e) [0..<m])))"

text \<open>
  Both physical outputs take gate and CV from track 1, track 0 is selected, the Clock is
  idle and the engine of track 1 still advertises an idle output.
\<close>

definition idleScenario :: Engine where
  "idleScenario =
     scenarioEngine\<lparr>
       project := scenarioProject\<lparr>gateOutputTracks := [1, 1], cvOutputTracks := [1, 1]\<rparr>,
       trackEngines := [Some scenarioTrackEngine, Some (scenarioTrackEngine\<lparr>idleOutput := True\<rparr>)]\<rparr>"

text \<open>
  The model says \<^verbatim>\<open>Last\<close> for track 0; in \<open>lastModeEmptySlot\<close> the slot of track 0 is empty
  (as all slots are before the first \<open>updateTrackSetups\<close>), in \<open>lastModeScenario\<close> it holds
  a Note engine.
\<close>

definition lastModeScenario :: Engine where
  "lastModeScenario =
     scenarioEngine\<lparr>project := scenarioProject\<lparr>tracks :=
       [\<lparr>trackMode = TrackMode_Last, linkTrack = - 1\<rparr>,
        \<lparr>trackMode = TrackMode_Curve, linkTrack = 0\<rparr>]\<rparr>\<rparr>"

definition lastModeEmptySlot :: Engine where
  "lastModeEmptySlot = lastModeScenario\<lparr>trackEngines := [None, None]\<rparr>"

section \<open>Properties\<close>

subsection \<open>Basic facts\<close>

lemma bindE_simps [simp]:
  "bindE (Inl err) f = Inl err" "bindE (Inr x) f = f x"
  by (simp_all add: bindE_def)

lemma measureDivisor_unat:
  "syncMeasure (project e) * CONFIG_PPQN e * 4 < 2 ^ 32 \<Longrightarrow>
   unat (measureDivisor e) = syncMeasure (project e) * CONFIG_PPQN e * 4"
  unfolding measureDivisor_def unat_of_nat by simp

lemma word_mod_window:
  fixes t d :: u32
  assumes "d \<noteq> 0"
  shows "(t mod d = 0) = (unat t mod unat d = 0)"
    and "(t mod d = d - 1) = (unat t mod unat d = unat d - 1)"
proof -
  show "(t mod d = 0) = (unat t mod unat d = 0)"
    by (simp add: word_unat_eq_iff unat_mod)
  show "(t mod d = d - 1) = (unat t mod unat d = unat d - 1)"
    using assms by (simp add: word_unat_eq_iff unat_mod unat_minus_one)
qed

lemma scenario_measure [simp]:
  "syncMeasure (project scenarioEngine) = 1" "CONFIG_PPQN scenarioEngine = 192"
  by (simp_all add: scenarioEngine_def scenarioProject_def)

subsection \<open>Frame lemmas\<close>

lemma forbidden_cong:
  "gateOutputOverride e' = gateOutputOverride e \<Longrightarrow> cvOutputOverride e' = cvOutputOverride e
   \<Longrightarrow> forbidden e' ev = forbidden e ev"
  by (cases ev) (auto split: TrackEngineCall.splits)

lemma controlFrame_refl [simp]: "controlFrame e e"
  by (simp add: controlFrame_def)

lemma controlFrame_trans:
  assumes "controlFrame e1 e2" and "controlFrame e2 e3"
  shows "controlFrame e1 e3"
proof -
  from assms(1) obtain tr1 where t1: "trace e2 = trace e1 @ tr1"
      "list_all (\<lambda>ev. \<not> forbidden e1 ev) tr1"
    by (auto simp: controlFrame_def)
  from assms(2) obtain tr2 where t2: "trace e3 = trace e2 @ tr2"
      "list_all (\<lambda>ev. \<not> forbidden e2 ev) tr2"
    by (auto simp: controlFrame_def)
  have same: "forbidden e2 = forbidden e1"
    using assms(1) by (intro ext forbidden_cong) (simp_all add: controlFrame_def)
  have "trace e3 = trace e1 @ (tr1 @ tr2)" "list_all (\<lambda>ev. \<not> forbidden e1 ev) (tr1 @ tr2)"
    using t1 t2 same by simp_all
  then have "\<exists>tr. trace e3 = trace e1 @ tr \<and> list_all (\<lambda>ev. \<not> forbidden e1 ev) tr"
    by blast
  then show ?thesis
    using assms by (simp add: controlFrame_def)
qed

lemma bindE_InrE:
  assumes "bindE m f = Inr y"
  obtains x where "m = Inr x" and "f x = Inr y"
  using assms by (cases m) (simp_all add: bindE_def)

lemma controlFrame_emit: "\<not> forbidden e ev \<Longrightarrow> controlFrame e (emit ev e)"
  by (simp add: controlFrame_def emit_def)

lemma controlFrame_model:
  assumes "locked e' = locked e" "requestLock e' = requestLock e"
    "requestUnlock e' = requestUnlock e" "gateOutputOverride e' = gateOutputOverride e"
    "gateOutputOverrideValue e' = gateOutputOverrideValue e"
    "cvOutputOverride e' = cvOutputOverride e"
    "cvOutputOverrideValues e' = cvOutputOverrideValues e" "trace e' = trace e"
  shows "controlFrame e e'"
  using assms by (simp add: controlFrame_def)

lemma controlFrame_setPlayState [simp]: "controlFrame e (setPlayState ps e)"
  by (rule controlFrame_model) (simp_all add: setPlayState_def)

lemma controlFrame_setTrackStates [simp]: "controlFrame e (setTrackStates tss e)"
  by (simp add: setTrackStates_def)

lemma controlFrame_setSongState [simp]: "controlFrame e (setSongState ss e)"
  by (simp add: setSongState_def)

lemma controlFrame_modifyTrackState [simp]: "controlFrame e (modifyTrackState i f e)"
  by (simp add: modifyTrackState_def Let_def)

named_theorems cf_pure
named_theorems cf_run

lemma cf_emit [cf_pure]: "\<not> forbidden e0 ev \<Longrightarrow> controlFrame e0 e \<Longrightarrow> controlFrame e0 (emit ev e)"
proof -
  assume a: "\<not> forbidden e0 ev" and b: "controlFrame e0 e"
  have "forbidden e ev = forbidden e0 ev"
    using b by (intro forbidden_cong) (simp_all add: controlFrame_def)
  with a have "controlFrame e (emit ev e)" by (simp add: controlFrame_emit)
  with b show ?thesis by (rule controlFrame_trans)
qed

lemma cf_setPlayState [cf_pure]: "controlFrame e0 e \<Longrightarrow> controlFrame e0 (setPlayState ps e)"
  by (erule controlFrame_trans) simp

lemma cf_setTrackStates [cf_pure]: "controlFrame e0 e \<Longrightarrow> controlFrame e0 (setTrackStates tss e)"
  by (erule controlFrame_trans) simp

lemma cf_setSongState [cf_pure]: "controlFrame e0 e \<Longrightarrow> controlFrame e0 (setSongState ss e)"
  by (erule controlFrame_trans) simp

lemma cf_modifyTrackState [cf_pure]: "controlFrame e0 e \<Longrightarrow> controlFrame e0 (modifyTrackState i f e)"
  by (erule controlFrame_trans) simp

lemma callTrackEngine_Inr:
  "callTrackEngine i c e = Inr e' \<longleftrightarrow>
     i < length (trackEngines e) \<and> trackEngines e ! i \<noteq> None \<and> e' = emit (TrackEv i c) e"
  by (auto simp: callTrackEngine_def split: option.splits)

lemma getTrackEngine_Inr:
  "getTrackEngine i e = Inr te \<longleftrightarrow> i < length (trackEngines e) \<and> trackEngines e ! i = Some te"
  by (auto simp: getTrackEngine_def split: option.splits)

lemma cf_callTrackEngine:
  assumes "callTrackEngine i c e = Inr e'" and "\<not> forbidden e0 (TrackEv i c)"
    and "controlFrame e0 e"
  shows "controlFrame e0 e'"
  using assms by (auto simp: callTrackEngine_Inr intro: cf_emit)

lemma cf_callTrackEngine_loop:
  assumes "foldE (\<lambda>i. callTrackEngine i c) xs e = Inr e'" and "controlFrame e0 e"
    and ok: "\<And>i. \<not> forbidden e0 (TrackEv i c)"
  shows "controlFrame e0 e'"
  using assms(1,2)
proof (induction xs arbitrary: e)
  case Nil
  then show ?case by simp
next
  case (Cons x xs)
  then show ?case
    by (auto split: sum.splits intro: cf_callTrackEngine [OF _ ok])
qed

lemma cf_foldE:
  assumes step: "\<And>x s s'. f x s = Inr s' \<Longrightarrow> controlFrame e0 s \<Longrightarrow> controlFrame e0 s'"
    and run: "foldE f xs s = Inr s'" and "controlFrame e0 s"
  shows "controlFrame e0 s'"
  using run assms(3)
proof (induction xs arbitrary: s)
  case Nil
  then show ?case by simp
next
  case (Cons x xs)
  then obtain s1 where s1: "f x s = Inr s1" and rest: "foldE f xs s1 = Inr s'"
    by (auto split: sum.splits)
  from step [OF s1 Cons.prems(2)] Cons.IH [OF rest] show ?case
    by simp
qed

lemma cf_foldl:
  assumes step: "\<And>x s. controlFrame e0 s \<Longrightarrow> controlFrame e0 (f s x)"
    and "controlFrame e0 s"
  shows "controlFrame e0 (foldl f s xs)"
  using assms(2)
  by (induction xs arbitrary: s) (simp_all add: step)

lemma cf_handleMuteAndPatternRequests [cf_pure]:
  assumes "controlFrame e0 e"
  shows "controlFrame e0 (fst (handleMuteAndPatternRequests hs hl e))"
proof -
  have "controlFrame e0 (fst acc) \<Longrightarrow>
        controlFrame e0 (fst (foldl (\<lambda>acc i. handleTrackRequests mr pr i acc) acc xs))"
    for acc mr pr xs
  proof (induction xs arbitrary: acc)
    case Nil
    then show ?case by simp
  next
    case (Cons x xs)
    have "controlFrame e0 (fst (handleTrackRequests mr pr x acc))"
      using Cons.prems by (simp add: handleTrackRequests_def Let_def cf_modifyTrackState)
    then show ?case
      using Cons.IH by simp
  qed
  from this [of "(e, False)"] assms show ?thesis
    by (simp add: handleMuteAndPatternRequests_def)
qed

lemma cf_applySlotPatterns [cf_pure]:
  "controlFrame e0 e \<Longrightarrow> controlFrame e0 (applySlotPatterns slot e)"
  unfolding applySlotPatterns_def by (rule cf_foldl) (simp_all add: cf_modifyTrackState)

lemma cf_handlePlayRequest [cf_run]:
  assumes "handlePlayRequest playR sw e = Inr (e', sw')" and "controlFrame e0 e"
  shows "controlFrame e0 e'"
  using assms
  by (auto simp: handlePlayRequest_def Let_def split: if_splits elim!: bindE_InrE
      intro!: cf_pure)

lemma cf_handleSongRequests [cf_run]:
  assumes "handleSongRequests hs hl changed sw e = Inr (e', sw')" and "controlFrame e0 e"
  shows "controlFrame e0 e'"
  using assms
  by (auto simp: handleSongRequests_def Let_def elim!: bindE_InrE
      intro!: cf_pure intro: cf_handlePlayRequest)

lemma cf_clearPendingRequests [cf_pure]:
  "controlFrame e0 e \<Longrightarrow> controlFrame e0 (clearPendingRequests hs hl e)"
  by (simp add: clearPendingRequests_def Let_def cf_setPlayState)

lemma cf_updatePatternStep:
  assumes "updatePatternStep slot i e = Inr e'" and "controlFrame e0 e"
  shows "controlFrame e0 e'"
  using assms by (auto simp: updatePatternStep_def callTrackEngine_Inr intro!: cf_pure)

lemma cf_handleSongSlotChange [cf_run]:
  assumes "handleSongSlotChange e = Inr e'" and "controlFrame e0 e"
  shows "controlFrame e0 e'"
  using assms
  by (auto simp: handleSongSlotChange_def Let_def elim!: bindE_InrE
      intro: cf_foldE [OF cf_updatePatternStep] cf_setSongState)

lemma cf_pushTrackState:
  assumes "pushTrackState i e = Inr e'" and "controlFrame e0 e"
  shows "controlFrame e0 e'"
  using assms
  by (auto simp: pushTrackState_def Let_def callTrackEngine_Inr elim!: bindE_InrE
      intro!: cf_pure)

lemma cf_pushTrackStates [cf_run]:
  assumes "pushTrackStates e = Inr e'" and "controlFrame e0 e"
  shows "controlFrame e0 e'"
  using assms unfolding pushTrackStates_def
  by (rule cf_foldE [rotated]) (rule cf_pushTrackState)

lemma cf_updatePlayStateBody:
  assumes "updatePlayStateBody hs sw e = Inr e'" and "controlFrame e0 e"
  shows "controlFrame e0 e'"
  using assms
  apply (auto simp: updatePlayStateBody_def Let_def elim!: bindE_InrE split: if_splits)
  apply (blast intro: cf_run cf_pure)+
  done

lemma cf_updatePlayState [cf_run]:
  assumes "updatePlayState ticked e = Inr e'" and "controlFrame e0 e"
  shows "controlFrame e0 e'"
  using assms
  by (auto simp: updatePlayState_def split: if_splits intro: cf_updatePlayStateBody)

lemma cf_createTrackEngine [cf_pure]:
  "controlFrame e0 e \<Longrightarrow> controlFrame e0 (createTrackEngine m l i e)"
  unfolding createTrackEngine_def
  by (rule cf_emit, simp, erule controlFrame_trans, rule controlFrame_model) simp_all

lemma cf_reconstructTrackEngine [cf_pure]:
  "controlFrame e0 e \<Longrightarrow> controlFrame e0 (reconstructTrackEngine m l i e)"
  by (cases m) (simp_all add: reconstructTrackEngine_def cf_createTrackEngine)

lemma cf_updateTrackSetup:
  assumes "updateTrackSetup i e = Inr e'" and "controlFrame e0 e"
  shows "controlFrame e0 e'"
  using assms
  by (auto simp: updateTrackSetup_def linkedEngine_def Let_def callTrackEngine_Inr
      elim!: bindE_InrE split: if_splits intro!: cf_pure intro: cf_pushTrackState)

lemma cf_updateTrackSetups [cf_run]:
  assumes "updateTrackSetups e = Inr e'" and "controlFrame e0 e"
  shows "controlFrame e0 e'"
  using assms unfolding updateTrackSetups_def
  by (rule cf_foldE [rotated]) (rule cf_updateTrackSetup)

lemma cf_resetTrackEngines [cf_run]:
  assumes "resetTrackEngines e = Inr e'" and "controlFrame e0 e"
  shows "controlFrame e0 e'"
  using assms unfolding resetTrackEngines_def
  by (rule cf_callTrackEngine_loop) simp

lemma cf_same_overrides:
  "controlFrame e0 e \<Longrightarrow> gateOutputOverride e = gateOutputOverride e0
     \<and> cvOutputOverride e = cvOutputOverride e0"
  by (simp add: controlFrame_def)

lemma cf_setGate:
  "\<not> gateOutputOverride e0 \<Longrightarrow> controlFrame e0 e \<Longrightarrow> controlFrame e0 (setGate i v e)"
  unfolding setGate_def
  by (rule cf_emit, simp, erule controlFrame_trans, rule controlFrame_model) simp_all

lemma cf_setChannel:
  "\<not> cvOutputOverride e0 \<Longrightarrow> controlFrame e0 e \<Longrightarrow> controlFrame e0 (setChannel i v e)"
  unfolding setChannel_def
  by (rule cf_emit, simp, erule controlFrame_trans, rule controlFrame_model) simp_all

lemma cf_clearIdleOutput:
  assumes "clearIdleOutput i e = Inr e'" and "controlFrame e0 e"
  shows "controlFrame e0 e'"
proof -
  from assms(1) obtain te where
    e': "e' = emit (TrackEv i ClearIdleOutput)
              (e\<lparr>trackEngines := (trackEngines e)[i := Some (te\<lparr>idleOutput := False\<rparr>)]\<rparr>)"
    by (auto simp: clearIdleOutput_def elim!: bindE_InrE)
  have "controlFrame e0 (e\<lparr>trackEngines := (trackEngines e)[i := Some (te\<lparr>idleOutput := False\<rparr>)]\<rparr>)"
    by (rule controlFrame_trans [OF assms(2)], rule controlFrame_model) simp_all
  then show ?thesis
    unfolding e' by (rule cf_emit [rotated]) simp
qed

lemma cf_gateOutputStep:
  assumes "gateOutputStep idle i (e, tgi) = Inr (e', tgi')" and "controlFrame e0 e"
  shows "controlFrame e0 e'"
  using assms cf_same_overrides [OF assms(2)]
  by (auto simp: gateOutputStep_def Let_def elim!: bindE_InrE split: if_splits
      intro!: cf_setGate cf_emit)

lemma cf_cvOutputStep:
  assumes "cvOutputStep idle i (e, tci) = Inr (e', tci')" and "controlFrame e0 e"
  shows "controlFrame e0 e'"
  using assms cf_same_overrides [OF assms(2)]
  by (auto simp: cvOutputStep_def Let_def elim!: bindE_InrE split: if_splits
      intro!: cf_setChannel cf_emit)

lemma cf_trackOutputStep:
  assumes "trackOutputStep idle i st = Inr st'" and "controlFrame e0 (fst st)"
  shows "controlFrame e0 (fst st')"
  using assms
  apply (cases st, cases st')
  apply (auto simp: trackOutputStep_def Let_def elim!: bindE_InrE split: if_splits)
   apply (blast intro: cf_clearIdleOutput cf_gateOutputStep cf_cvOutputStep)+
  done

lemma cf_foldE_fst:
  assumes step: "\<And>x s s'. f x s = Inr s' \<Longrightarrow> controlFrame e0 (fst s) \<Longrightarrow> controlFrame e0 (fst s')"
    and run: "foldE f xs s = Inr s'" and "controlFrame e0 (fst s)"
  shows "controlFrame e0 (fst s')"
  using run assms(3)
proof (induction xs arbitrary: s)
  case Nil
  then show ?case by simp
next
  case (Cons x xs)
  then obtain s1 where s1: "f x s = Inr s1" and rest: "foldE f xs s1 = Inr s'"
    by (auto split: sum.splits)
  from step [OF s1 Cons.prems(2)] Cons.IH [OF rest] show ?case
    by simp
qed

lemma cf_updateTrackOutputs [cf_run]:
  assumes "updateTrackOutputs e = Inr e'" and "controlFrame e0 e"
  shows "controlFrame e0 e'"
proof -
  from assms(1) obtain st where
    run: "foldE (trackOutputStep (isIdle (clock e))) [0..<CONFIG_TRACK_COUNT e]
            (e, replicate (CONFIG_TRACK_COUNT e) 0, replicate (CONFIG_TRACK_COUNT e) 0) = Inr st"
    and e': "e' = fst st"
    by (auto simp: updateTrackOutputs_def Let_def elim!: bindE_InrE)
  have "controlFrame e0 (fst st)"
    by (rule cf_foldE_fst [OF cf_trackOutputStep run]) (simp_all add: assms(2))
  then show ?thesis
    by (simp add: e')
qed

lemma cf_receiveMidiMessage:
  assumes "receiveMidiMessage port m e = Inr e'" and "controlFrame e0 e"
  shows "controlFrame e0 e'"
proof -
  let ?e1 = "emit (RoutingReceiveMidi port m) (emit (MidiLearnReceiveMidi port m) e)"
  let ?e2 = "if midiReceiveHandler ?e1 then emit (MidiReceiveHandler port m) ?e1 else ?e1"
  have run: "foldE (\<lambda>i. callTrackEngine i (ReceiveMidi port (channel m) m))
               [0..<CONFIG_TRACK_COUNT ?e2] ?e2 = Inr e'"
    using assms(1) by (simp add: receiveMidiMessage_def Let_def)
  have "controlFrame e0 ?e2"
    using assms(2) by (auto intro!: cf_emit)
  with run show ?thesis
    by (rule cf_callTrackEngine_loop) simp
qed

lemma cf_recvStep:
  assumes "recvStep port m e = Inr e'" and "controlFrame e0 e"
  shows "controlFrame e0 e'"
proof -
  let ?e1 = "case port of Port_Midi \<Rightarrow> e\<lparr>midi := tl (midi e)\<rparr>
                   | Port_UsbMidi \<Rightarrow> e\<lparr>usbMidi := tl (usbMidi e)\<rparr>"
  have "controlFrame e ?e1"
    by (rule controlFrame_model) (simp_all split: MidiPort.splits)
  with assms(2) have "controlFrame e0 ?e1"
    by (rule controlFrame_trans)
  with assms(1) show ?thesis
    unfolding recvStep_def by (rule cf_receiveMidiMessage)
qed

lemma cf_receiveMidi [cf_run]:
  assumes "receiveMidi e = Inr e'" and "controlFrame e0 e"
  shows "controlFrame e0 e'"
  using assms
  by (auto simp: receiveMidi_def elim!: bindE_InrE intro: cf_foldE [OF cf_recvStep])

lemma cf_clockCall:
  "c \<noteq> MasterStop \<Longrightarrow> controlFrame e0 e \<Longrightarrow> controlFrame e0 (clockCall c e)"
  unfolding clockCall_def by (rule cf_emit) simp_all

lemma cf_onClockOutput [cf_pure]:
  "controlFrame e0 e \<Longrightarrow> controlFrame e0 (onClockOutput st e)"
  by (auto simp: onClockOutput_def Let_def split: ClockOutputMode.splits intro!: cf_emit)

lemma cf_updateClockSetup [cf_pure]:
  assumes "controlFrame e0 e"
  shows "controlFrame e0 (updateClockSetup e)"
proof (cases "dirty (clockSetup (project e))")
  case False
  then show ?thesis
    using assms by (simp add: updateClockSetup_def Let_def)
next
  case True
  obtain e7 where e7: "controlFrame e0 e7"
    and eq: "updateClockSetup e =
      e7\<lparr>project := (project e7)\<lparr>clockSetup := (clockSetup (project e7))\<lparr>dirty := False\<rparr>\<rparr>\<rparr>"
  proof
    let ?cs = "clockSetup (project e)"
    let ?e1 = "case mode ?cs of
                    Mode_Auto \<Rightarrow> clockCall (SetMode Clock_Auto) e
                  | Mode_Master \<Rightarrow> clockCall (SetMode Clock_Master) e
                  | Mode_Slave \<Rightarrow> clockCall (SetMode Clock_Slave) e
                  | Mode_Last \<Rightarrow> e"
    let ?e2 = "clockCall (SlaveConfigure ClockSourceExternal (clockInputDivisor ?cs) True) ?e1"
    let ?e3 = "clockCall (SlaveConfigure ClockSourceMidi (int (CONFIG_PPQN e div 24)) (midiRx ?cs)) ?e2"
    let ?e4 = "clockCall (SlaveConfigure ClockSourceUsbMidi (int (CONFIG_PPQN e div 24)) (usbRx ?cs)) ?e3"
    let ?rst = "resetInput ?e4"
    let ?run = "isRunning (clock ?e4)"
    let ?e5 = "case clockInputMode ?cs of
                    ClockInputMode_Reset \<Rightarrow>
                      (if ?rst \<and> ?run then clockCall (SlaveReset ClockSourceExternal) ?e4
                       else if \<not> ?rst \<and> \<not> ?run then clockCall (SlaveStart ClockSourceExternal) ?e4
                       else ?e4)
                  | ClockInputMode_Run \<Rightarrow>
                      (if ?rst \<and> \<not> ?run then clockCall (SlaveContinue ClockSourceExternal) ?e4
                       else if \<not> ?rst \<and> ?run then clockCall (SlaveStop ClockSourceExternal) ?e4
                       else ?e4)
                  | ClockInputMode_StartStop \<Rightarrow>
                      (if ?rst \<and> \<not> ?run then clockCall (SlaveStart ClockSourceExternal) ?e4
                       else if \<not> ?rst \<and> ?run then clockCall (SlaveReset ClockSourceExternal) ?e4
                       else ?e4)
                  | ClockInputMode_Last \<Rightarrow> ?e4"
    let ?e6 = "clockCall (OutputConfigure (clockOutputDivisor ?cs) (clockOutputPulse ?cs)) ?e5"
    let ?e7 = "onClockOutput (outputState (clock ?e6)) ?e6"
    have 1: "controlFrame e0 ?e1"
      using assms by (auto split: ClockSetupMode.splits intro!: cf_clockCall)
    have 4: "controlFrame e0 ?e4"
      by (intro cf_clockCall 1) simp_all
    have 5: "controlFrame e0 ?e5"
      using 4 by (auto split: ClockInputMode.splits intro!: cf_clockCall)
    show "controlFrame e0 ?e7"
      by (intro cf_onClockOutput cf_clockCall 5) simp
    show "updateClockSetup e =
      ?e7\<lparr>project := (project ?e7)\<lparr>clockSetup := (clockSetup (project ?e7))\<lparr>dirty := False\<rparr>\<rparr>\<rparr>"
      using True by (simp add: updateClockSetup_def Let_def)
  qed
  have "controlFrame e7 (updateClockSetup e)"
    unfolding eq by (rule controlFrame_model) simp_all
  with e7 show ?thesis
    by (rule controlFrame_trans)
qed

lemma cf_processClockEvent:
  assumes "processClockEvent ev e = Inr e'" and "controlFrame e0 e"
  shows "controlFrame e0 e'"
proof -
  let ?e1 = "e\<lparr>clock := (clock e)\<lparr>eventQueue := tl (eventQueue (clock e))\<rparr>\<rparr>"
  have "controlFrame e0 (?e1\<lparr>running := b\<rparr>)" for b
    by (rule controlFrame_trans [OF assms(2)], rule controlFrame_model) simp_all
  then show ?thesis
    using assms(1)
    by (cases ev) (auto simp: processClockEvent_def Let_def intro: cf_resetTrackEngines)
qed

lemma cf_tickStep:
  assumes "tickStep t e = Inr e'" and "controlFrame e0 e"
  shows "controlFrame e0 e'"
proof -
  let ?e1 = "e\<lparr>clock := (clock e)\<lparr>tickQueue := tl (tickQueue (clock e))\<rparr>, tick := t\<rparr>"
  have 1: "controlFrame e0 ?e1"
    by (rule controlFrame_trans [OF assms(2)], rule controlFrame_model) simp_all
  from assms(1) obtain e2 e3 where
    2: "updatePlayState True ?e1 = Inr e2"
    and 3: "foldE (\<lambda>i. callTrackEngine i (TickEngine t)) [0..<CONFIG_TRACK_COUNT e2] e2 = Inr e3"
    and 4: "updateTrackOutputs e3 = Inr e'"
    by (auto simp: tickStep_def Let_def elim!: bindE_InrE)
  from 2 1 have "controlFrame e0 e2" by (rule cf_updatePlayState)
  with 3 have "controlFrame e0 e3" by (rule cf_callTrackEngine_loop) simp
  with 4 show ?thesis by (rule cf_updateTrackOutputs)
qed

lemma cf_tickLoop [cf_run]:
  assumes "tickLoop e = Inr e'" and "controlFrame e0 e"
  shows "controlFrame e0 e'"
  using assms
  by (auto simp: tickLoop_def split: if_splits
      intro: cf_updateTrackOutputs cf_foldE [OF cf_tickStep])

lemma cf_updateTempo [cf_pure]:
  assumes "controlFrame e0 e"
  shows "controlFrame e0 (updateTempo dt e)"
proof -
  have "controlFrame e0 (e\<lparr>nudgeStrength := x\<rparr>)" for x
    by (rule controlFrame_trans [OF assms], rule controlFrame_model) simp_all
  then show ?thesis
    by (auto simp: updateTempo_def Let_def intro!: cf_clockCall cf_emit)
qed

lemma cf_routing:
  assumes "controlFrame e0 e"
  shows "controlFrame e0 (emit RoutingUpdate (e\<lparr>project := p\<rparr>))"
proof -
  have "controlFrame e0 (e\<lparr>project := p\<rparr>)"
    by (rule controlFrame_trans [OF assms], rule controlFrame_model) simp_all
  then show ?thesis
    by (rule cf_emit [rotated]) simp
qed

text \<open>The unlocked path up to (not including) the final \<open>updateOverrides\<close>.\<close>

lemma unlockedUpdate_frame:
  assumes "unlockedUpdate dt e = Inr e'"
  obtains e8 where "controlFrame e e8" and "e' = emit CvOutputUpdate (updateOverrides e8)"
proof -
  from assms obtain e1 e2 e3 e4 e7 e8 where
    1: "foldE processClockEvent (eventQueue (clock e)) e = Inr e1"
    and 2: "receiveMidi e1 = Inr e2"
    and 3: "updateTrackSetups (updateClockSetup (updateTempo dt e2)) = Inr e3"
    and 4: "updatePlayState False e3 = Inr e4"
    and 7: "tickLoop (emit RoutingUpdate
              ((emit CvInputUpdate e4)\<lparr>project := routingEffect (emit CvInputUpdate e4)
                   (project (emit CvInputUpdate e4))\<rparr>)) = Inr e7"
    and 8: "foldE (\<lambda>i. callTrackEngine i (UpdateEngine dt)) [0..<CONFIG_TRACK_COUNT e7] e7 = Inr e8"
    and e': "e' = emit CvOutputUpdate (updateOverrides e8)"
    by (auto simp: unlockedUpdate_def Let_def elim!: bindE_InrE)
  have "controlFrame e e1"
    by (rule cf_foldE [OF cf_processClockEvent 1]) simp_all
  with 2 have "controlFrame e e2" by (rule cf_receiveMidi)
  then have "controlFrame e (updateClockSetup (updateTempo dt e2))"
    by (intro cf_updateClockSetup cf_updateTempo)
  with 3 have "controlFrame e e3" by (rule cf_updateTrackSetups)
  with 4 have "controlFrame e e4" by (rule cf_updatePlayState)
  then have "controlFrame e (emit CvInputUpdate e4)"
    by (rule cf_emit [rotated]) simp
  then have "controlFrame e (emit RoutingUpdate
              ((emit CvInputUpdate e4)\<lparr>project := routingEffect (emit CvInputUpdate e4)
                   (project (emit CvInputUpdate e4))\<rparr>))"
    by (rule cf_routing)
  with 7 have "controlFrame e e7" by (rule cf_tickLoop)
  with 8 have "controlFrame e e8" by (rule cf_callTrackEngine_loop) simp
  then show ?thesis
    using e' by (rule that)
qed

lemma foldl_setChannel:
  "foldl (\<lambda>e' i. setChannel i (cvOutputOverrideValues e' ! i) e') e xs =
     e\<lparr>channels := foldl (\<lambda>ch i. ch[i := cvOutputOverrideValues e ! i]) (channels e) xs,
       trace := trace e @ map (\<lambda>i. SetChannel i (cvOutputOverrideValues e ! i)) xs\<rparr>"
proof (induction xs arbitrary: e)
  case Nil
  show ?case by simp
next
  case (Cons x xs)
  let ?f = "\<lambda>e' i. setChannel i (cvOutputOverrideValues e' ! i) e'"
  let ?e1 = "setChannel x (cvOutputOverrideValues e ! x) e"
  have "foldl ?f e (x # xs) = foldl ?f ?e1 xs"
    by simp
  also have "\<dots> = ?e1\<lparr>channels := foldl (\<lambda>ch i. ch[i := cvOutputOverrideValues ?e1 ! i]) (channels ?e1) xs,
       trace := trace ?e1 @ map (\<lambda>i. SetChannel i (cvOutputOverrideValues ?e1 ! i)) xs\<rparr>"
    by (rule Cons.IH)
  also have "\<dots> = e\<lparr>channels := foldl (\<lambda>ch i. ch[i := cvOutputOverrideValues e ! i]) (channels e) (x # xs),
       trace := trace e @ map (\<lambda>i. SetChannel i (cvOutputOverrideValues e ! i)) (x # xs)\<rparr>"
    by (simp add: setChannel_def emit_def)
  finally show ?case .
qed

lemma updateOverrides_eq:
  "updateOverrides e =
     e\<lparr>gates := (if gateOutputOverride e then gateOutputOverrideValue e else gates e),
       channels := (if cvOutputOverride e then overrideChannels (cvOutputOverrideValues e) (channels e)
                    else channels e),
       trace := trace e @ overrideEvents e\<rparr>"
  by (simp add: updateOverrides_def foldl_setChannel setGates_def emit_def Let_def
      overrideChannels_def overrideEvents_def)

lemma overrideChannels_length [simp]: "length (overrideChannels vals ch) = length ch"
proof -
  have "length (foldl (\<lambda>ch i. ch[i := vals ! i]) ch xs) = length ch" for xs
    by (induction xs arbitrary: ch) simp_all
  then show ?thesis by (simp add: overrideChannels_def)
qed

lemma overrideChannels_nth:
  assumes "i < length vals" and "i < length ch"
  shows "overrideChannels vals ch ! i = vals ! i"
proof -
  have "foldl (\<lambda>ch i. ch[i := vals ! i]) ch [0..<n] ! i =
          (if i < n then vals ! i else ch ! i)" if "i < length ch" for n ch
    using that
  proof (induction n)
    case 0
    show ?case by simp
  next
    case (Suc n)
    have len: "length (foldl (\<lambda>ch i. ch[i := vals ! i]) ch xs) = length ch" for xs ch
      by (induction xs arbitrary: ch) simp_all
    show ?case
      using Suc by (cases "i = n") (simp_all add: len)
  qed
  from this [OF assms(2), of "length vals"] assms(1) show ?thesis
    by (simp add: overrideChannels_def)
qed

lemma overrideEvents_no_MasterStop [simp]: "ClockEv MasterStop \<notin> set (overrideEvents e)"
  by (auto simp: overrideEvents_def)

subsection \<open>The locked cycle\<close>

text \<open>
  C4, as the code has it. A cycle entered locked with no unlock request pending always
  returns, locked, in the state written out below: the wall-clock sample is taken, a pending lock request is
  cleared (the lock transition then master-stops the Clock once more), the Clock tick
  queue and both MIDI queues are empty, active overrides are written and CvOutput is
  updated. The model, with every track state and its pending requests (an
  ImmediateMuteRequest among them), the track-engine slots, \<open>tick\<close> and \<open>running\<close> are
  unchanged, and no method of any track engine is called during the cycle. So the cycle
  does more than the locked branch when a lock request is pending: it stops the master
  clock again and clears the request.
\<close>

theorem update_locked_cycle:
  assumes "locked e \<noteq> 0" and "requestUnlock e = 0"
  shows "\<exists>e'. update t e = Inr e'
           \<and> e' = e\<lparr>lastSystemTicks := t, requestLock := 0,
                    locked := (if requestLock e \<noteq> 0 then 1 else locked e),
                    clock := (clock e)\<lparr>tickQueue := []\<rparr>, midi := [], usbMidi := [],
                    gates := (if gateOutputOverride e then gateOutputOverrideValue e else gates e),
                    channels := (if cvOutputOverride e
                                 then overrideChannels (cvOutputOverrideValues e) (channels e)
                                 else channels e),
                    trace := trace e @ (if requestLock e \<noteq> 0 then [ClockEv MasterStop] else [])
                               @ overrideEvents e @ [CvOutputUpdate]\<rparr>
           \<and> locked e' \<noteq> 0
           \<and> project e' = project e
           \<and> trackStates (playState (project e')) = trackStates (playState (project e))
           \<and> trackEngines e' = trackEngines e
           \<and> tick e' = tick e \<and> running e' = running e
           \<and> tickQueue (clock e') = [] \<and> midi e' = [] \<and> usbMidi e' = []
           \<and> (\<forall>i c. TrackEv i c \<notin> set (drop (length (trace e)) (trace e')))"
  using assms
  by (auto simp: update_def lockTransition_def lockedUpdate_def updateOverrides_eq Let_def
      clockCall_def emit_def overrideEvents_def)

lemma update_result:
  assumes "update t e = Inr e'"
  obtains e8 tr where "gateOutputOverride e8 = gateOutputOverride e"
    and "gateOutputOverrideValue e8 = gateOutputOverrideValue e"
    and "cvOutputOverride e8 = cvOutputOverride e"
    and "cvOutputOverrideValues e8 = cvOutputOverrideValues e"
    and "trace e8 = trace e @ tr"
    and "list_all (\<lambda>ev. ev = ClockEv MasterStop \<or> \<not> forbidden e ev) tr"
    and "e' = emit CvOutputUpdate (updateOverrides e8)"
proof -
  let ?e0 = "lockTransition (e\<lparr>lastSystemTicks := t\<rparr>)"
  let ?tr0 = "if requestLock e \<noteq> 0 then [ClockEv MasterStop] else []"
  have lt: "gateOutputOverride ?e0 = gateOutputOverride e"
    "gateOutputOverrideValue ?e0 = gateOutputOverrideValue e"
    "cvOutputOverride ?e0 = cvOutputOverride e"
    "cvOutputOverrideValues ?e0 = cvOutputOverrideValues e"
    "trace ?e0 = trace e @ ?tr0"
    by (simp_all add: lockTransition_def Let_def clockCall_def emit_def)
  show ?thesis
  proof (cases "locked ?e0 \<noteq> 0")
    case True
    let ?e8 = "?e0\<lparr>clock := (clock ?e0)\<lparr>tickQueue := []\<rparr>, midi := [], usbMidi := []\<rparr>"
    have "e' = emit CvOutputUpdate (updateOverrides ?e8)"
      using assms True by (simp add: update_def Let_def lockedUpdate_def)
    moreover have "trace ?e8 = trace e @ ?tr0"
      using lt by simp
    moreover have "list_all (\<lambda>ev. ev = ClockEv MasterStop \<or> \<not> forbidden e ev) ?tr0"
      by simp
    ultimately show ?thesis
      using lt by (intro that [of ?e8 ?tr0]) simp_all
  next
    case False
    then obtain dt where "unlockedUpdate dt ?e0 = Inr e'"
      using assms by (simp add: update_def Let_def)
    then obtain e8 where fr: "controlFrame ?e0 e8"
      and e': "e' = emit CvOutputUpdate (updateOverrides e8)"
      by (rule unlockedUpdate_frame)
    from fr obtain tr where tr: "trace e8 = trace ?e0 @ tr"
      "list_all (\<lambda>ev. \<not> forbidden ?e0 ev) tr"
      by (auto simp: controlFrame_def)
    have same: "forbidden ?e0 = forbidden e"
      using lt by (intro ext forbidden_cong) simp_all
    have "trace e8 = trace e @ (?tr0 @ tr)"
      using tr lt by simp
    moreover have "list_all (\<lambda>ev. ev = ClockEv MasterStop \<or> \<not> forbidden e ev) (?tr0 @ tr)"
      using tr(2) same by (auto simp: list_all_iff)
    ultimately show ?thesis
      using fr lt e' by (intro that [of e8 "?tr0 @ tr"]) (simp_all add: controlFrame_def)
  qed
qed

lemma overrideEvents_cong:
  "gateOutputOverride e8 = gateOutputOverride e \<Longrightarrow>
   gateOutputOverrideValue e8 = gateOutputOverrideValue e \<Longrightarrow>
   cvOutputOverride e8 = cvOutputOverride e \<Longrightarrow>
   cvOutputOverrideValues e8 = cvOutputOverrideValues e \<Longrightarrow>
   overrideEvents e8 = overrideEvents e"
  by (simp add: overrideEvents_def)

subsection \<open>Output overrides\<close>

text \<open>
  C5. In every cycle of \<open>update\<close> that returns: if \<open>gateOutputOverride\<close> is set at entry, the
  gates held by GateOutput after the cycle are \<open>gateOutputOverrideValue\<close>, the cycle wrote
  them with \<open>setGates\<close>, and it neither wrote a single gate nor asked any track engine
  for a gate value; if \<open>cvOutputOverride\<close> is set at entry, every channel \<open>i\<close> of CvOutput
  holds \<open>cvOutputOverrideValues[i]\<close> after the cycle, every channel write of the cycle
  is the write of that value, and no track engine was asked for a CV value.
\<close>

theorem update_override_outputs:
  assumes "update t e = Inr e'"
  shows "(gateOutputOverride e \<longrightarrow>
            gates e' = gateOutputOverrideValue e
          \<and> (\<exists>tr. trace e' = trace e @ tr
                \<and> SetGates (gateOutputOverrideValue e) \<in> set tr
                \<and> (\<forall>i v. SetGate i v \<notin> set tr)
                \<and> (\<forall>s k. TrackEv s (GateOutput k) \<notin> set tr \<and> TrackEv s (IdleGateOutput k) \<notin> set tr)))
       \<and> (cvOutputOverride e \<longrightarrow>
            (\<forall>i. i < length (cvOutputOverrideValues e) \<and> i < length (channels e')
                  \<longrightarrow> channels e' ! i = cvOutputOverrideValues e ! i)
          \<and> (\<exists>tr. trace e' = trace e @ tr
                \<and> (\<forall>i. i < length (cvOutputOverrideValues e)
                       \<longrightarrow> SetChannel i (cvOutputOverrideValues e ! i) \<in> set tr)
                \<and> (\<forall>i v. SetChannel i v \<in> set tr
                       \<longrightarrow> i < length (cvOutputOverrideValues e) \<and> v = cvOutputOverrideValues e ! i)
                \<and> (\<forall>s k. TrackEv s (CvOutput k) \<notin> set tr \<and> TrackEv s (IdleCvOutput k) \<notin> set tr)))"
proof -
  from assms obtain e8 tr where ov: "gateOutputOverride e8 = gateOutputOverride e"
      "gateOutputOverrideValue e8 = gateOutputOverrideValue e"
      "cvOutputOverride e8 = cvOutputOverride e"
      "cvOutputOverrideValues e8 = cvOutputOverrideValues e"
    and tr: "trace e8 = trace e @ tr"
    and ok: "list_all (\<lambda>ev. ev = ClockEv MasterStop \<or> \<not> forbidden e ev) tr"
    and e': "e' = emit CvOutputUpdate (updateOverrides e8)"
    by (rule update_result)
  let ?tr = "tr @ overrideEvents e @ [CvOutputUpdate]"
  have trace': "trace e' = trace e @ ?tr"
    using tr overrideEvents_cong [OF ov] by (simp add: e' updateOverrides_eq emit_def)
  have gate: "gates e' = gateOutputOverrideValue e" if "gateOutputOverride e"
    using that ov by (simp add: e' updateOverrides_eq emit_def)
  have chan: "channels e' ! i = cvOutputOverrideValues e ! i"
    if "cvOutputOverride e" "i < length (cvOutputOverrideValues e)" "i < length (channels e')" for i
    using that ov by (simp add: e' updateOverrides_eq emit_def overrideChannels_nth)
  have ng: "SetGate i v \<notin> set ?tr \<and> TrackEv s (GateOutput k) \<notin> set ?tr
            \<and> TrackEv s (IdleGateOutput k) \<notin> set ?tr \<and> SetGates (gateOutputOverrideValue e) \<in> set ?tr"
    if "gateOutputOverride e" for i v s k
    using that ok by (auto simp: list_all_iff overrideEvents_def)
  have nc: "TrackEv s (CvOutput k) \<notin> set ?tr \<and> TrackEv s (IdleCvOutput k) \<notin> set ?tr
            \<and> (SetChannel i v \<in> set ?tr
                 \<longrightarrow> i < length (cvOutputOverrideValues e) \<and> v = cvOutputOverrideValues e ! i)
            \<and> (i < length (cvOutputOverrideValues e)
                 \<longrightarrow> SetChannel i (cvOutputOverrideValues e ! i) \<in> set ?tr)"
    if "cvOutputOverride e" for i v s k
    using that ok by (auto simp: list_all_iff overrideEvents_def)
  show ?thesis
  proof (intro conjI impI)
    assume g: "gateOutputOverride e"
    show "gates e' = gateOutputOverrideValue e" by (rule gate [OF g])
    show "\<exists>tr. trace e' = trace e @ tr
                \<and> SetGates (gateOutputOverrideValue e) \<in> set tr
                \<and> (\<forall>i v. SetGate i v \<notin> set tr)
                \<and> (\<forall>s k. TrackEv s (GateOutput k) \<notin> set tr \<and> TrackEv s (IdleGateOutput k) \<notin> set tr)"
      using trace' ng [OF g] by blast
  next
    assume c: "cvOutputOverride e"
    show "\<forall>i. i < length (cvOutputOverrideValues e) \<and> i < length (channels e')
                  \<longrightarrow> channels e' ! i = cvOutputOverrideValues e ! i"
      using chan [OF c] by blast
    show "\<exists>tr. trace e' = trace e @ tr
                \<and> (\<forall>i. i < length (cvOutputOverrideValues e)
                       \<longrightarrow> SetChannel i (cvOutputOverrideValues e ! i) \<in> set tr)
                \<and> (\<forall>i v. SetChannel i v \<in> set tr
                       \<longrightarrow> i < length (cvOutputOverrideValues e) \<and> v = cvOutputOverrideValues e ! i)
                \<and> (\<forall>s k. TrackEv s (CvOutput k) \<notin> set tr \<and> TrackEv s (IdleCvOutput k) \<notin> set tr)"
      using trace' nc [OF c] by blast
  qed
qed

lemmas model_defs = update_def lockTransition_def lockedUpdate_def unlockedUpdate_def
  processClockEvent_def receiveMidi_def updateTempo_def updateClockSetup_def
  updateTrackSetups_def updateTrackSetup_def linkedEngine_def needsSetup_def pushTrackState_def
  pushTrackStates_def handleSongSlotChange_def updatePatternStep_def nextSongState_def
  Song_slot_def modifyTrackState_def setTrackStates_def setPlayState_def setSongState_def
  callTrackEngine_def emit_def clockCall_def updatePlayState_def updatePlayStateBody_def
  measureDivisor_def handleSyncedRequests_def switchToNextSlot_def
  tickLoop_def tickStep_def updateTrackOutputs_def trackOutputStep_def gateOutputStep_def
  cvOutputStep_def clearIdleOutput_def getTrackEngine_def setGate_def setChannel_def
  updateOverrides_def setGates_def CONFIG_TRACK_COUNT_def
  scenarioEngine_def scenarioProject_def scenarioPlayState_def scenarioTrackState_def
  scenarioTrackEngine_def Let_def upt_rec

theorem update_locked_cycle_witness:
  "locked lockedScenario \<noteq> 0 \<and> requestUnlock lockedScenario = 0
   \<and> ImmediateMuteRequest \<in> requests (trackStates (playState (project lockedScenario)) ! 0)
   \<and> (\<exists>e'. update 9 lockedScenario = Inr e'
          \<and> locked e' \<noteq> 0
          \<and> ImmediateMuteRequest \<in> requests (trackStates (playState (project e')) ! 0)
          \<and> \<not> mute (trackStates (playState (project e')) ! 0)
          \<and> tickQueue (clock e') = [] \<and> midi e' = []
          \<and> trace e' = [CvOutputUpdate])
   \<and> locked lockRequestedScenario \<noteq> 0 \<and> requestUnlock lockRequestedScenario = 0
   \<and> requestLock lockRequestedScenario \<noteq> 0
   \<and> (\<exists>e'. update 9 lockRequestedScenario = Inr e'
          \<and> locked e' \<noteq> 0 \<and> requestLock e' = 0
          \<and> ImmediateMuteRequest \<in> requests (trackStates (playState (project e')) ! 0)
          \<and> \<not> mute (trackStates (playState (project e')) ! 0)
          \<and> tickQueue (clock e') = [] \<and> midi e' = []
          \<and> trace e' = [ClockEv MasterStop, CvOutputUpdate])"
proof -
  have h: "locked lockedScenario \<noteq> 0" "requestUnlock lockedScenario = 0"
    by (simp_all add: lockedScenario_def model_defs)
  have s: "ImmediateMuteRequest \<in> requests (trackStates (playState (project lockedScenario)) ! 0)"
    "\<not> mute (trackStates (playState (project lockedScenario)) ! 0)"
    "trace lockedScenario = []" "requestLock lockedScenario = 0"
    "overrideEvents lockedScenario = []"
    by (simp_all add: lockedScenario_def overrideEvents_def model_defs)
  have h2: "locked lockRequestedScenario \<noteq> 0" "requestUnlock lockRequestedScenario = 0"
    by (simp_all add: lockRequestedScenario_def lockedScenario_def model_defs)
  have s2: "ImmediateMuteRequest
              \<in> requests (trackStates (playState (project lockRequestedScenario)) ! 0)"
    "\<not> mute (trackStates (playState (project lockRequestedScenario)) ! 0)"
    "trace lockRequestedScenario = []" "requestLock lockRequestedScenario \<noteq> 0"
    "overrideEvents lockRequestedScenario = []"
    by (simp_all add: lockRequestedScenario_def lockedScenario_def overrideEvents_def model_defs)
  have a: "\<exists>e'. update 9 lockedScenario = Inr e'
          \<and> locked e' \<noteq> 0
          \<and> ImmediateMuteRequest \<in> requests (trackStates (playState (project e')) ! 0)
          \<and> \<not> mute (trackStates (playState (project e')) ! 0)
          \<and> tickQueue (clock e') = [] \<and> midi e' = []
          \<and> trace e' = [CvOutputUpdate]"
    using update_locked_cycle [OF h, of 9] h s by auto
  have b: "\<exists>e'. update 9 lockRequestedScenario = Inr e'
          \<and> locked e' \<noteq> 0 \<and> requestLock e' = 0
          \<and> ImmediateMuteRequest \<in> requests (trackStates (playState (project e')) ! 0)
          \<and> \<not> mute (trackStates (playState (project e')) ! 0)
          \<and> tickQueue (clock e') = [] \<and> midi e' = []
          \<and> trace e' = [ClockEv MasterStop, CvOutputUpdate]"
    using update_locked_cycle [OF h2, of 9] h2 s2 by auto
  from a b h s(1) h2 s2(4) show ?thesis
    by blast
qed

text \<open>
  Entered locked with a lock request pending and no unlock request, the cycle calls
  \<^verbatim>\<open>masterStop\<close> on the Clock and clears the lock request before it drains the queues.
\<close>

theorem update_locked_cycle_counterexample:
  "locked lockRequestedScenario \<noteq> 0 \<and> requestUnlock lockRequestedScenario = 0
   \<and> requestLock lockRequestedScenario = 1 \<and> trace lockRequestedScenario = []
   \<and> (\<exists>e'. update 9 lockRequestedScenario = Inr e'
          \<and> locked e' \<noteq> 0 \<and> requestLock e' = 0
          \<and> trace e' = [ClockEv MasterStop, CvOutputUpdate])"
  by (simp add: lockRequestedScenario_def lockedScenario_def model_defs)

theorem update_override_outputs_witness:
  "gateOutputOverride overrideScenario \<and> cvOutputOverride overrideScenario
   \<and> (\<exists>e'. update 9 overrideScenario = Inr e'
          \<and> gates e' = [True, False] \<and> channels e' ! 0 = 1 \<and> channels e' ! 1 = 2)"
proof -
  have "\<exists>e'. update 9 overrideScenario = Inr e' \<and> length (channels e') = 2"
    by (simp add: overrideScenario_def model_defs)
  then obtain e' where run: "update 9 overrideScenario = Inr e'" and len: "length (channels e') = 2"
    by blast
  have s: "gateOutputOverride overrideScenario" "cvOutputOverride overrideScenario"
    "gateOutputOverrideValue overrideScenario = [True, False]"
    "cvOutputOverrideValues overrideScenario = [1, 2]"
    by (simp_all add: overrideScenario_def)
  from update_override_outputs [OF run] s len
  have "gates e' = [True, False]" "channels e' ! 0 = 1" "channels e' ! 1 = 2"
    by auto
  with run s show ?thesis
    by blast
qed

subsection \<open>External clock input\<close>

text \<open>
  C9. With \<open>clockInputMode = Reset\<close>, the Clock not running and the reset input low, the
  handler of the clock input called with \<open>True\<close> sends the Clock \<open>slaveStart(External)\<close>
  and then \<open>slaveTick(External)\<close> and nothing else; called with \<open>False\<close> it sends only
  \<open>slaveStart(External)\<close>. Nothing but the trace changes.
\<close>

theorem clockInputHandler_reset_mode:
  assumes "clockInputMode (clockSetup (project e)) = ClockInputMode_Reset"
    and "\<not> isRunning (clock e)" and "\<not> resetInput e"
  shows "clockInputHandler True e =
           e\<lparr>trace := trace e @ [ClockEv (SlaveStart ClockSourceExternal),
                                  ClockEv (SlaveTick ClockSourceExternal)]\<rparr>
       \<and> clockInputHandler False e =
           e\<lparr>trace := trace e @ [ClockEv (SlaveStart ClockSourceExternal)]\<rparr>"
  using assms by (simp add: clockInputHandler_def clockCall_def emit_def)

theorem clockInputHandler_reset_mode_witness:
  "clockInputMode (clockSetup (project scenarioEngine)) = ClockInputMode_Reset
   \<and> \<not> isRunning (clock scenarioEngine) \<and> \<not> resetInput scenarioEngine
   \<and> trace (clockInputHandler True scenarioEngine) =
       [ClockEv (SlaveStart ClockSourceExternal), ClockEv (SlaveTick ClockSourceExternal)]
   \<and> trace (clockInputHandler False scenarioEngine) = [ClockEv (SlaveStart ClockSourceExternal)]"
proof -
  have h: "clockInputMode (clockSetup (project scenarioEngine)) = ClockInputMode_Reset"
    "\<not> isRunning (clock scenarioEngine)" "\<not> resetInput scenarioEngine"
    "trace scenarioEngine = []"
    by (simp_all add: scenarioEngine_def scenarioProject_def)
  from clockInputHandler_reset_mode [OF h(1-3)] h show ?thesis
    by simp
qed

subsection \<open>Simultaneous lock and unlock requests\<close>

text \<open>
  C10. When \<open>update\<close> is entered with both \<open>requestLock\<close> and \<open>requestUnlock\<close> set, the lock
  transition master-stops the Clock, clears both requests and leaves the engine unlocked;
  the cycle then is the unlocked path run from that state. When the cycle returns, the
  engine is unlocked, both requests are clear, and the trace of the cycle starts with the
  one \<open>masterStop\<close> of the cycle.
\<close>

theorem update_lock_and_unlock:
  assumes "requestLock e \<noteq> 0" and "requestUnlock e \<noteq> 0"
  shows "lockTransition e =
           e\<lparr>requestLock := 0, locked := 0, requestUnlock := 0,
             trace := trace e @ [ClockEv MasterStop]\<rparr>
       \<and> update t e =
           unlockedUpdate ((0.001 * real (unat (t - lastSystemTicks e))) / real (os_time_ms1 e))
             (e\<lparr>lastSystemTicks := t, requestLock := 0, locked := 0, requestUnlock := 0,
                trace := trace e @ [ClockEv MasterStop]\<rparr>)
       \<and> (\<forall>e'. update t e = Inr e' \<longrightarrow>
             locked e' = 0 \<and> requestLock e' = 0 \<and> requestUnlock e' = 0
           \<and> (\<exists>tr. trace e' = trace e @ ClockEv MasterStop # tr \<and> ClockEv MasterStop \<notin> set tr))"
proof -
  let ?e0 = "e\<lparr>lastSystemTicks := t, requestLock := 0, locked := 0, requestUnlock := 0,
                trace := trace e @ [ClockEv MasterStop]\<rparr>"
  let ?dt = "(0.001 * real (unat (t - lastSystemTicks e))) / real (os_time_ms1 e)"
  have lt: "lockTransition e =
           e\<lparr>requestLock := 0, locked := 0, requestUnlock := 0,
             trace := trace e @ [ClockEv MasterStop]\<rparr>"
    using assms by (simp add: lockTransition_def Let_def clockCall_def emit_def)
  have st: "lockTransition (e\<lparr>lastSystemTicks := t\<rparr>) = ?e0"
    using assms by (simp add: lockTransition_def Let_def clockCall_def emit_def)
  have "locked ?e0 = 0"
    by simp
  then have up: "update t e = unlockedUpdate ?dt ?e0"
    unfolding update_def Let_def st by simp
  have fin: "locked e' = 0 \<and> requestLock e' = 0 \<and> requestUnlock e' = 0
           \<and> (\<exists>tr. trace e' = trace e @ ClockEv MasterStop # tr \<and> ClockEv MasterStop \<notin> set tr)"
    if "update t e = Inr e'" for e'
  proof -
    from that up have "unlockedUpdate ?dt ?e0 = Inr e'" by simp
    then obtain e8 where fr: "controlFrame ?e0 e8"
      and e': "e' = emit CvOutputUpdate (updateOverrides e8)"
      by (rule unlockedUpdate_frame)
    from fr obtain tr where tr: "trace e8 = trace ?e0 @ tr"
      "list_all (\<lambda>ev. \<not> forbidden ?e0 ev) tr"
      by (auto simp: controlFrame_def)
    have "ClockEv MasterStop \<notin> set tr"
      using tr(2) by (auto simp: list_all_iff)
    then have "trace e' = trace e @ ClockEv MasterStop # (tr @ overrideEvents e8 @ [CvOutputUpdate])
        \<and> ClockEv MasterStop \<notin> set (tr @ overrideEvents e8 @ [CvOutputUpdate])"
      using tr(1) by (simp add: e' updateOverrides_eq emit_def)
    then have "\<exists>tr. trace e' = trace e @ ClockEv MasterStop # tr \<and> ClockEv MasterStop \<notin> set tr"
      by blast
    moreover have "locked e' = 0 \<and> requestLock e' = 0 \<and> requestUnlock e' = 0"
      using fr by (simp add: e' updateOverrides_eq emit_def controlFrame_def)
    ultimately show ?thesis by simp
  qed
  from lt up fin show ?thesis by blast
qed

theorem update_lock_and_unlock_witness:
  "requestLock lockUnlockScenario \<noteq> 0 \<and> requestUnlock lockUnlockScenario \<noteq> 0
   \<and> (\<exists>e'. update 9 lockUnlockScenario = Inr e'
         \<and> locked e' = 0 \<and> requestLock e' = 0 \<and> requestUnlock e' = 0
         \<and> hd (trace e') = ClockEv MasterStop
         \<and> ClockEv MasterStop \<notin> set (tl (trace e')))"
proof -
  have h: "requestLock lockUnlockScenario \<noteq> 0" "requestUnlock lockUnlockScenario \<noteq> 0"
    "trace lockUnlockScenario = []"
    by (simp_all add: lockUnlockScenario_def scenarioEngine_def)
  have "\<exists>e'. update 9 lockUnlockScenario = Inr e'"
    by (simp add: lockUnlockScenario_def model_defs)
  then obtain e' where run: "update 9 lockUnlockScenario = Inr e'" ..
  from update_lock_and_unlock [OF h(1,2), of 9] run h(3)
  have "locked e' = 0 \<and> requestLock e' = 0 \<and> requestUnlock e' = 0
         \<and> hd (trace e') = ClockEv MasterStop
         \<and> ClockEv MasterStop \<notin> set (tl (trace e'))"
    by auto
  with run h show ?thesis by blast
qed

subsection \<open>Closed forms of the per-track iterations\<close>

lemma allEnginesPresent_nth:
  "allEnginesPresent e \<Longrightarrow> i < length (trackEngines e) \<Longrightarrow> trackEngines e ! i \<noteq> None"
  by (simp add: allEnginesPresent_def list_all_length)

lemma emit_fields [simp]:
  "trace (emit ev e) = trace e @ [ev]"
  "project (emit ev e) = project e"
  "trackEngines (emit ev e) = trackEngines e"
  "CONFIG_TRACK_COUNT (emit ev e) = CONFIG_TRACK_COUNT e"
  by (simp_all add: emit_def CONFIG_TRACK_COUNT_def)

lemma emitAll_fields [simp]:
  "trace (emitAll evs e) = trace e @ evs"
  "project (emitAll evs e) = project e"
  "trackEngines (emitAll evs e) = trackEngines e"
  "CONFIG_TRACK_COUNT (emitAll evs e) = CONFIG_TRACK_COUNT e"
  by (simp_all add: emitAll_def CONFIG_TRACK_COUNT_def)

lemma emitAll_emit [simp]:
  "emitAll evs (emit ev e) = emitAll (ev # evs) e"
  "emit ev (emitAll evs e) = emitAll (evs @ [ev]) e"
  "emitAll evs2 (emitAll evs1 e) = emitAll (evs1 @ evs2) e"
  by (simp_all add: emitAll_def emit_def)

lemma setters_fields [simp]:
  "trace (setPlayState ps e) = trace e"
  "trackEngines (setPlayState ps e) = trackEngines e"
  "CONFIG_TRACK_COUNT (setPlayState ps e) = CONFIG_TRACK_COUNT e"
  "playState (project (setPlayState ps e)) = ps"
  "song (project (setPlayState ps e)) = song (project e)"
  "syncMeasure (project (setPlayState ps e)) = syncMeasure (project e)"
  "CONFIG_PPQN (setPlayState ps e) = CONFIG_PPQN e"
  "tick (setPlayState ps e) = tick e"
  by (simp_all add: setPlayState_def CONFIG_TRACK_COUNT_def)

lemma callTrackEngine_present:
  "i < length (trackEngines e) \<Longrightarrow> trackEngines e ! i \<noteq> None \<Longrightarrow>
   callTrackEngine i c e = Inr (emit (TrackEv i c) e)"
  by (auto simp: callTrackEngine_def split: option.splits)

lemma foldE_updatePatternStep:
  assumes "\<forall>i\<in>set xs. i < length (trackEngines e) \<and> trackEngines e ! i \<noteq> None"
  shows "foldE (updatePatternStep slot) xs e =
           Inr (emitAll (map (\<lambda>i. TrackEv i ResetEngine) xs)
                  (setTrackStates (slotPatternStates slot xs (trackStates (playState (project e)))) e))"
  using assms
proof (induction xs arbitrary: e)
  case Nil
  show ?case
    by (simp add: slotPatternStates_def emitAll_def setTrackStates_def setPlayState_def)
next
  case (Cons x xs)
  let ?e1 = "emit (TrackEv x ResetEngine)
               (modifyTrackState x (\<lambda>ts. ts\<lparr>pattern := patterns slot ! x\<rparr>) e)"
  have step: "updatePatternStep slot x e = Inr ?e1"
    using Cons.prems
    by (simp add: updatePatternStep_def callTrackEngine_present modifyTrackState_def Let_def
        setTrackStates_def setPlayState_def)
  have te: "trackEngines ?e1 = trackEngines e"
    by (simp add: modifyTrackState_def Let_def setTrackStates_def setPlayState_def emit_def)
  have "foldE (updatePatternStep slot) xs ?e1 =
          Inr (emitAll (map (\<lambda>i. TrackEv i ResetEngine) xs)
                 (setTrackStates (slotPatternStates slot xs (trackStates (playState (project ?e1)))) ?e1))"
    by (rule Cons.IH) (use Cons.prems te in simp)
  also have "emitAll (map (\<lambda>i. TrackEv i ResetEngine) xs)
                 (setTrackStates (slotPatternStates slot xs (trackStates (playState (project ?e1)))) ?e1)
      = emitAll (map (\<lambda>i. TrackEv i ResetEngine) (x # xs))
                  (setTrackStates (slotPatternStates slot (x # xs) (trackStates (playState (project e)))) e)"
    by (simp add: slotPatternStates_def emitAll_def modifyTrackState_def Let_def
        setTrackStates_def setPlayState_def emit_def)
  finally show ?case
    using step by simp
qed

lemma foldE_pushTrackState:
  assumes "\<forall>i\<in>set xs. i < length (trackEngines e) \<and> trackEngines e ! i \<noteq> None"
  shows "foldE pushTrackState xs e = Inr (emitAll (concat (map (pushEvents e) xs)) e)"
  using assms
proof (induction xs arbitrary: e)
  case Nil
  show ?case by (simp add: emitAll_def)
next
  case (Cons x xs)
  let ?e1 = "emitAll (pushEvents e x) e"
  have step: "pushTrackState x e = Inr ?e1"
    using Cons.prems
    by (simp add: pushTrackState_def Let_def callTrackEngine_present pushEvents_def)
      (simp add: emit_def emitAll_def)
  have same: "trackEngines ?e1 = trackEngines e" "pushEvents ?e1 = pushEvents e"
    by (simp_all add: emitAll_def pushEvents_def fun_eq_iff)
  have "foldE pushTrackState xs ?e1 = Inr (emitAll (concat (map (pushEvents ?e1) xs)) ?e1)"
    by (rule Cons.IH) (use Cons.prems same in simp)
  then show ?case
    using step same by (simp add: emitAll_def)
qed

lemma slotPatternStates_length [simp]: "length (slotPatternStates slot xs tss) = length tss"
  unfolding slotPatternStates_def by (induction xs arbitrary: tss) simp_all

lemma slotPatternStates_nth:
  assumes "i < length tss"
  shows "slotPatternStates slot xs tss ! i =
           (if i \<in> set xs then (tss ! i)\<lparr>pattern := patterns slot ! i\<rparr> else tss ! i)"
  using assms
proof (induction xs arbitrary: tss)
  case Nil
  show ?case by (simp add: slotPatternStates_def)
next
  case (Cons x xs)
  let ?tss = "tss[x := (tss ! x)\<lparr>pattern := patterns slot ! x\<rparr>]"
  have "slotPatternStates slot (x # xs) tss = slotPatternStates slot xs ?tss"
    by (simp add: slotPatternStates_def)
  moreover have "slotPatternStates slot xs ?tss ! i =
      (if i \<in> set xs then (?tss ! i)\<lparr>pattern := patterns slot ! i\<rparr> else ?tss ! i)"
    by (rule Cons.IH) (use Cons.prems in simp)
  ultimately show ?case
    using Cons.prems by (cases "i = x") simp_all
qed

subsection \<open>The song slot change on its own\<close>

lemma measure_window_nat:
  assumes "M = syncMeasure (project e) * CONFIG_PPQN e * 4" and "0 < M" and "M < 2 ^ 32"
  shows "measureDivisor e \<noteq> 0"
    and "handleSyncedRequests e = (unat (tick e) mod M = 0 \<or> unat (tick e) mod M = M - 1)"
    and "switchToNextSlot ticked e = (ticked \<and> unat (tick e) mod M = M - 1)"
proof -
  have u: "unat (measureDivisor e) = M"
    using measureDivisor_unat [of e] assms by simp
  show nz: "measureDivisor e \<noteq> 0"
    using u assms(2) by (auto simp: unat_eq_zero)
  show "handleSyncedRequests e = (unat (tick e) mod M = 0 \<or> unat (tick e) mod M = M - 1)"
    unfolding handleSyncedRequests_def using word_mod_window [OF nz, of "tick e"] u by simp
  show "switchToNextSlot ticked e = (ticked \<and> unat (tick e) mod M = M - 1)"
    unfolding switchToNextSlot_def using word_mod_window [OF nz, of "tick e"] u by simp
qed

lemma handleSongSlotChange_present:
  assumes present: "allEnginesPresent e"
    and slot: "Song_slot (song (project e)) (currentSlot (songState (playState (project e)))) = Inr slot"
    and slot': "Song_slot (song (project e))
                  (currentSlot (nextSongState (song (project e)) slot
                                  (songState (playState (project e))))) = Inr slot'"
  shows "handleSongSlotChange e =
           Inr (emitAll (map (\<lambda>i. TrackEv i ResetEngine) [0..<CONFIG_TRACK_COUNT e])
                  (setTrackStates
                     (slotPatternStates slot' [0..<CONFIG_TRACK_COUNT e]
                        (trackStates (playState (project e))))
                     (setSongState (nextSongState (song (project e)) slot
                                      (songState (playState (project e)))) e)))"
proof -
  let ?e1 = "setSongState (nextSongState (song (project e)) slot
                             (songState (playState (project e)))) e"
  have pres: "\<forall>i\<in>set [0..<CONFIG_TRACK_COUNT ?e1].
                i < length (trackEngines ?e1) \<and> trackEngines ?e1 ! i \<noteq> None"
    using present
    by (simp add: setSongState_def CONFIG_TRACK_COUNT_def allEnginesPresent_nth)
  have "handleSongSlotChange e = foldE (updatePatternStep slot') [0..<CONFIG_TRACK_COUNT ?e1] ?e1"
    using slot slot' by (simp add: handleSongSlotChange_def Let_def setSongState_def)
  also have "\<dots> = Inr (emitAll (map (\<lambda>i. TrackEv i ResetEngine) [0..<CONFIG_TRACK_COUNT ?e1])
                  (setTrackStates (slotPatternStates slot' [0..<CONFIG_TRACK_COUNT ?e1]
                      (trackStates (playState (project ?e1)))) ?e1))"
    by (rule foldE_updatePatternStep [OF pres])
  finally show ?thesis
    by (simp add: setSongState_def setTrackStates_def)
qed

subsection \<open>Invalid song-slot request\<close>

lemma foldE_preserves:
  assumes step: "\<And>x s s'. f x s = Inr s' \<Longrightarrow> g s' = g s"
    and run: "foldE f xs s = Inr s'"
  shows "g s' = g s"
  using run
proof (induction xs arbitrary: s)
  case Nil
  then show ?case by simp
next
  case (Cons x xs)
  then obtain s1 where s1: "f x s = Inr s1" and rest: "foldE f xs s1 = Inr s'"
    by (auto split: sum.splits)
  from step [OF s1] Cons.IH [OF rest] show ?case
    by simp
qed

lemma modifyTrackState_song [simp]:
  "songState (playState (project (modifyTrackState i f e))) = songState (playState (project e))"
  "song (project (modifyTrackState i f e)) = song (project e)"
  by (simp_all add: modifyTrackState_def Let_def setTrackStates_def setPlayState_def)

lemma handleMuteAndPatternRequests_song:
  "songState (playState (project (fst (handleMuteAndPatternRequests hs hl e))))
     = songState (playState (project e))"
  "song (project (fst (handleMuteAndPatternRequests hs hl e))) = song (project e)"
proof -
  have "songState (playState (project (fst (foldl (\<lambda>acc i. handleTrackRequests mr pr i acc) acc xs))))
          = songState (playState (project (fst acc)))
      \<and> song (project (fst (foldl (\<lambda>acc i. handleTrackRequests mr pr i acc) acc xs)))
          = song (project (fst acc))" for mr pr acc xs
    by (induction xs arbitrary: acc) (simp_all add: handleTrackRequests_def Let_def)
  from this [of _ _ "(e, False)"]
  show "songState (playState (project (fst (handleMuteAndPatternRequests hs hl e))))
     = songState (playState (project e))"
    "song (project (fst (handleMuteAndPatternRequests hs hl e))) = song (project e)"
    by (simp_all add: handleMuteAndPatternRequests_def)
qed

lemma pushTrackStates_project:
  assumes "pushTrackStates e = Inr e'"
  shows "project e' = project e"
proof -
  have step: "project s' = project s" if "pushTrackState x s = Inr s'" for x s s'
    using that
    by (auto simp: pushTrackState_def Let_def callTrackEngine_Inr elim!: bindE_InrE)
  show ?thesis
    using assms unfolding pushTrackStates_def
    by (rule foldE_preserves [where g = project, rotated]) (rule step)
qed

lemma handleSongSlotChange_songRequests:
  assumes "handleSongSlotChange e = Inr e'"
  shows "songRequests (songState (playState (project e')))
           = songRequests (songState (playState (project e)))"
proof -
  from assms obtain slot slot' where
    run: "foldE (updatePatternStep slot')
            [0..<CONFIG_TRACK_COUNT (setSongState (nextSongState (song (project e)) slot
                 (songState (playState (project e)))) e)]
            (setSongState (nextSongState (song (project e)) slot
                 (songState (playState (project e)))) e) = Inr e'"
    by (auto simp: handleSongSlotChange_def Let_def elim!: bindE_InrE)
  have step: "songState (playState (project s')) = songState (playState (project s))"
    if "updatePatternStep slot' x s = Inr s'" for x s s'
    using that by (auto simp: updatePatternStep_def callTrackEngine_Inr)
  have "songState (playState (project e'))
          = songState (playState (project (setSongState (nextSongState (song (project e)) slot
                 (songState (playState (project e)))) e)))"
    using run
    by (rule foldE_preserves [where g = "\<lambda>s. songState (playState (project s))", rotated])
      (rule step)
  then show ?thesis
    by (simp add: setSongState_def nextSongState_def)
qed

text \<open>
  C3. In a call of the arbitration that handles requests, let a Play request in the
  mask of the call be pending while \<open>requestedSlot\<close> is negative or not below \<open>slotCount\<close>.
  The Play handling (the \<^verbatim>\<open>if (songState.hasRequests(playRequests))\<close> block) returns the
  state it was given, with the current slot, the repeat counter, the playing flag and
  every track state, and leaves \<^verbatim>\<open>switchToNextSlot\<close> as it was; and when the call returns,
  no Play request of the mask is pending any more.
\<close>

theorem invalid_play_request_ignored:
  assumes hs: "hs = handleSyncedRequests e"
    and hl: "hl = executeLatchedRequests (playState (project e))"
    and buckets: "hasImmediateRequests (playState (project e))
                  \<or> hasSyncedRequests (playState (project e)) \<or> hl"
    and fires: "SongState_hasRequests (songState (playState (project e))) (playRequests hs hl)"
    and invalid: "requestedSlot (songState (playState (project e))) < 0
                  \<or> slotCount (song (project e)) \<le> requestedSlot (songState (playState (project e)))"
  shows "handlePlayRequest (playRequests hs hl) sw (fst (handleMuteAndPatternRequests hs hl e))
           = Inr (fst (handleMuteAndPatternRequests hs hl e), sw)
       \<and> (\<forall>ticked e'. updatePlayState ticked e = Inr e' \<longrightarrow>
             songRequests (songState (playState (project e'))) \<inter> playRequests hs hl = {})"
proof (intro conjI allI impI)
  let ?e1 = "fst (handleMuteAndPatternRequests hs hl e)"
  show "handlePlayRequest (playRequests hs hl) sw ?e1 = Inr (?e1, sw)"
    using fires invalid
    by (auto simp: handlePlayRequest_def Let_def handleMuteAndPatternRequests_song)
next
  fix ticked e'
  assume run: "updatePlayState ticked e = Inr e'"
  let ?e1 = "fst (handleMuteAndPatternRequests hs hl e)"
  let ?ch = "snd (handleMuteAndPatternRequests hs hl e)"
  let ?sw = "switchToNextSlot ticked e"
  from run buckets hs hl obtain r2 e4 where
    r2: "handleSongRequests hs hl ?ch ?sw ?e1 = Inr r2"
    and e4: "(if playing (songState (playState (project (clearPendingRequests hs hl (fst r2))))) \<and> snd r2
              then handleSongSlotChange (clearPendingRequests hs hl (fst r2))
              else Inr (clearPendingRequests hs hl (fst r2))) = Inr e4"
    and e': "pushTrackStates e4 = Inr e'"
    by (auto simp: updatePlayState_def updatePlayStateBody_def Let_def
        split: if_splits elim!: bindE_InrE)
  have "songRequests (songState (playState (project (fst r2)))) \<inter> playRequests hs hl = {}"
    using r2
    by (auto simp: handleSongRequests_def Let_def SongState_clearRequests_def setSongState_def
        setPlayState_def elim!: bindE_InrE)
  moreover have "songRequests (songState (playState (project (clearPendingRequests hs hl (fst r2)))))
      = songRequests (songState (playState (project (fst r2))))"
    by (simp add: clearPendingRequests_def Let_def)
  moreover have "songRequests (songState (playState (project e4)))
      = songRequests (songState (playState (project (clearPendingRequests hs hl (fst r2)))))"
    using e4 by (auto split: if_splits dest: handleSongSlotChange_songRequests)
  moreover have "project e' = project e4"
    using e' by (rule pushTrackStates_project)
  ultimately show "songRequests (songState (playState (project e'))) \<inter> playRequests hs hl = {}"
    by simp
qed

theorem invalid_play_request_ignored_witness:
  "SongState_hasRequests (songState (playState (project invalidPlayScenario)))
     (playRequests False False)
   \<and> slotCount (song (project invalidPlayScenario))
       \<le> requestedSlot (songState (playState (project invalidPlayScenario)))
   \<and> (\<exists>e'. updatePlayState False invalidPlayScenario = Inr e'
         \<and> songRequests (songState (playState (project e'))) \<inter> playRequests False False = {}
         \<and> songPosition e' = (1, 0)
         \<and> \<not> playing (songState (playState (project e')))
         \<and> trackPatterns e' = [0, 0])"
proof -
  have h: "False = handleSyncedRequests invalidPlayScenario"
    "False = executeLatchedRequests (playState (project invalidPlayScenario))"
    "hasImmediateRequests (playState (project invalidPlayScenario))
       \<or> hasSyncedRequests (playState (project invalidPlayScenario)) \<or> False"
    "SongState_hasRequests (songState (playState (project invalidPlayScenario)))
       (playRequests False False)"
    "requestedSlot (songState (playState (project invalidPlayScenario))) < 0
       \<or> slotCount (song (project invalidPlayScenario))
           \<le> requestedSlot (songState (playState (project invalidPlayScenario)))"
    by (simp_all add: invalidPlayScenario_def SongState_hasRequests_def playRequests_def model_defs)
  have "\<exists>e'. updatePlayState False invalidPlayScenario = Inr e'
         \<and> songPosition e' = (1, 0)
         \<and> \<not> playing (songState (playState (project e')))
         \<and> trackPatterns e' = [0, 0]"
    by (simp add: invalidPlayScenario_def songPosition_def trackPatterns_def
        handleMuteAndPatternRequests_def handleTrackRequests_def handleSongRequests_def
        handlePlayRequest_def clearPendingRequests_def TrackState_hasRequests_def
        TrackState_clearRequests_def SongState_hasRequests_def SongState_clearRequests_def
        muteRequests_def patternRequests_def playRequests_def stopRequests_def model_defs)
  then obtain e' where run: "updatePlayState False invalidPlayScenario = Inr e'"
    and rest: "songPosition e' = (1, 0)" "\<not> playing (songState (playState (project e')))"
      "trackPatterns e' = [0, 0]"
    by blast
  from invalid_play_request_ignored [OF h, of False] run
  have "songRequests (songState (playState (project e'))) \<inter> playRequests False False = {}"
    by blast
  with run rest h(4) show ?thesis
    by (auto simp: invalidPlayScenario_def model_defs)
qed

subsection \<open>Sub-indices of an output pass\<close>

lemma foldE_append:
  "foldE f (xs @ ys) s = bindE (foldE f xs s) (foldE f ys)"
  by (induction xs arbitrary: s) (simp_all split: sum.splits)

lemma outputSteps_simps [simp]:
  "outputSteps [] = []"
  "outputSteps (tr1 @ tr2) = outputSteps tr1 @ outputSteps tr2"
  "outputSteps (ev # tr) = (case outputStep ev of None \<Rightarrow> [] | Some s \<Rightarrow> [s]) @ outputSteps tr"
  by (simp_all add: outputSteps_def List.map_filter_def split: option.splits)

lemma subIndex_mono:
  assumes "i < j" and "src ! i = src ! j"
  shows "subIndex src i < subIndex src j"
proof -
  have "[0..<j] = [0..<i] @ i # [Suc i..<j]"
    using assms(1) by (metis le_add_diff_inverse less_imp_le_nat upt_add_eq_append upt_conv_Cons zero_le)
  then have "subIndex src j = length (filter (\<lambda>k. src ! k = src ! j) [0..<i]) + 1
                + length (filter (\<lambda>k. src ! k = src ! j) [Suc i..<j])"
    using assms(2) by (simp add: subIndex_def)
  then show ?thesis
    using assms(2) by (simp add: subIndex_def)
qed

lemma clearIdleOutput_Inr:
  assumes "clearIdleOutput i e = Inr e'"
  shows "project e' = project e" and "length (trackEngines e') = length (trackEngines e)"
    and "gateOutputOverride e' = gateOutputOverride e"
    and "cvOutputOverride e' = cvOutputOverride e"
    and "trace e' = trace e @ [TrackEv i ClearIdleOutput]"
  using assms by (auto simp: clearIdleOutput_def emit_def elim!: bindE_InrE)

lemma gateOutputStep_Inr:
  assumes "gateOutputStep idle i (e, tgi) = Inr (e', tgi')"
  shows "project e' = project e" and "length (trackEngines e') = length (trackEngines e)"
    and "gateOutputOverride e' = gateOutputOverride e"
    and "cvOutputOverride e' = cvOutputOverride e"
    and "\<exists>tr. trace e' = trace e @ tr
           \<and> outputSteps tr =
               (if gateOutputOverride e then []
                else [GateDraw (gateOutputTracks (project e) ! i)
                        (tgi ! (gateOutputTracks (project e) ! i)), GateWrite i])"
    and "tgi' = (if gateOutputOverride e then tgi
                 else tgi[gateOutputTracks (project e) ! i :=
                            tgi ! (gateOutputTracks (project e) ! i) + 1])"
    and "\<not> gateOutputOverride e \<longrightarrow> gateOutputTracks (project e) ! i < length (trackEngines e)"
  using assms
  by (auto simp: gateOutputStep_def Let_def setGate_def emit_def getTrackEngine_Inr
      elim!: bindE_InrE split: if_splits)

lemma cvOutputStep_Inr:
  assumes "cvOutputStep idle i (e, tci) = Inr (e', tci')"
  shows "project e' = project e" and "length (trackEngines e') = length (trackEngines e)"
    and "gateOutputOverride e' = gateOutputOverride e"
    and "cvOutputOverride e' = cvOutputOverride e"
    and "\<exists>tr. trace e' = trace e @ tr
           \<and> outputSteps tr =
               (if cvOutputOverride e then []
                else [CvDraw (cvOutputTracks (project e) ! i)
                        (tci ! (cvOutputTracks (project e) ! i)), CvWrite i])"
    and "tci' = (if cvOutputOverride e then tci
                 else tci[cvOutputTracks (project e) ! i :=
                            tci ! (cvOutputTracks (project e) ! i) + 1])"
    and "\<not> cvOutputOverride e \<longrightarrow> cvOutputTracks (project e) ! i < length (trackEngines e)"
  using assms
  by (auto simp: cvOutputStep_def Let_def setChannel_def emit_def getTrackEngine_Inr
      elim!: bindE_InrE split: if_splits)

lemma sourceCount_Suc:
  "sourceCount src (Suc m) t = sourceCount src m t + (if src ! m = t then 1 else 0)"
  by (simp add: sourceCount_def)

lemma subIndex_sourceCount: "subIndex src i = sourceCount src i (src ! i)"
  by (simp add: subIndex_def sourceCount_def)

lemma passInv_start:
  "passInv e 0 (e, replicate (length (trackEngines e)) 0, replicate (length (trackEngines e)) 0)"
  by (simp add: passInv_def sourceCount_def)

lemma passInv_step:
  assumes inv: "passInv e m st" and step: "trackOutputStep idle m st = Inr st'"
  shows "passInv e (Suc m) st'"
proof -
  obtain e0 tgi tci where st: "st = (e0, tgi, tci)" by (cases st) auto
  obtain e3 tgi' tci' where st': "st' = (e3, tgi', tci')" by (cases st') auto
  let ?n = "length (trackEngines e)"
  let ?g = "gateOutputTracks (project e)"
  let ?c = "cvOutputTracks (project e)"
  from inv st have i0: "project e0 = project e" "length (trackEngines e0) = ?n"
      "gateOutputOverride e0 = gateOutputOverride e" "cvOutputOverride e0 = cvOutputOverride e"
      "length tgi = ?n" "length tci = ?n"
    and cg: "\<not> gateOutputOverride e \<Longrightarrow> t < ?n \<Longrightarrow> tgi ! t = sourceCount ?g m t"
    and cc: "\<not> cvOutputOverride e \<Longrightarrow> t < ?n \<Longrightarrow> tci ! t = sourceCount ?c m t" for t
    by (simp_all add: passInv_def Let_def)
  from inv st obtain tr0 where tr0: "trace e0 = trace e @ tr0"
      "outputSteps tr0 = concat (map (passSteps e) [0..<m])"
    by (auto simp: passInv_def Let_def)
  from step st st' obtain e1 e2 where
    c1: "(if int m \<noteq> selectedTrackIndex (project e0) then clearIdleOutput m e0 else Inr e0) = Inr e1"
    and g2: "gateOutputStep idle m (e1, tgi) = Inr (e2, tgi')"
    and c3: "cvOutputStep idle m (e2, tci) = Inr (e3, tci')"
    by (auto simp: trackOutputStep_def Let_def elim!: bindE_InrE)
  from c1 have i1: "project e1 = project e" "length (trackEngines e1) = ?n"
      "gateOutputOverride e1 = gateOutputOverride e" "cvOutputOverride e1 = cvOutputOverride e"
    and "\<exists>tr. trace e1 = trace e0 @ tr \<and> outputSteps tr = []"
    using i0 by (auto split: if_splits dest: clearIdleOutput_Inr)
  then obtain tr1 where tr1: "trace e1 = trace e0 @ tr1" "outputSteps tr1 = []"
    by blast
  from gateOutputStep_Inr [OF g2] i1
  have i2: "project e2 = project e" "length (trackEngines e2) = ?n"
      "gateOutputOverride e2 = gateOutputOverride e" "cvOutputOverride e2 = cvOutputOverride e"
    and tgi': "tgi' = (if gateOutputOverride e then tgi else tgi[?g ! m := tgi ! (?g ! m) + 1])"
    and gr: "\<not> gateOutputOverride e \<Longrightarrow> ?g ! m < ?n"
    by simp_all
  from gateOutputStep_Inr(5) [OF g2] i1 obtain tr2 where tr2: "trace e2 = trace e1 @ tr2"
      "outputSteps tr2 = (if gateOutputOverride e then []
                          else [GateDraw (?g ! m) (tgi ! (?g ! m)), GateWrite m])"
    by auto
  from cvOutputStep_Inr [OF c3] i2
  have i3: "project e3 = project e" "length (trackEngines e3) = ?n"
      "gateOutputOverride e3 = gateOutputOverride e" "cvOutputOverride e3 = cvOutputOverride e"
    and tci': "tci' = (if cvOutputOverride e then tci else tci[?c ! m := tci ! (?c ! m) + 1])"
    and cr: "\<not> cvOutputOverride e \<Longrightarrow> ?c ! m < ?n"
    by simp_all
  from cvOutputStep_Inr(5) [OF c3] i2 obtain tr3 where tr3: "trace e3 = trace e2 @ tr3"
      "outputSteps tr3 = (if cvOutputOverride e then []
                          else [CvDraw (?c ! m) (tci ! (?c ! m)), CvWrite m])"
    by auto
  have steps: "outputSteps (tr2 @ tr3) = passSteps e m"
    using tr2(2) tr3(2) cg [OF _ gr] cc [OF _ cr]
    by (simp add: passSteps_def subIndex_sourceCount)
  have tr: "trace e3 = trace e @ (tr0 @ tr1 @ tr2 @ tr3)"
    "outputSteps (tr0 @ tr1 @ tr2 @ tr3) = concat (map (passSteps e) [0..<Suc m])"
    using tr0 tr1 tr2(1) tr3(1) steps by simp_all
  have lens: "length tgi' = ?n" "length tci' = ?n"
    using i0 tgi' tci' by simp_all
  have cg': "tgi' ! t = sourceCount ?g (Suc m) t" if "\<not> gateOutputOverride e" "t < ?n" for t
    using that cg [OF that] cg [OF that(1) gr [OF that(1)]] i0(5) tgi' gr [OF that(1)]
    by (simp add: sourceCount_Suc nth_list_update)
  have cc': "tci' ! t = sourceCount ?c (Suc m) t" if "\<not> cvOutputOverride e" "t < ?n" for t
    using that cc [OF that] cc [OF that(1) cr [OF that(1)]] i0(6) tci' cr [OF that(1)]
    by (simp add: sourceCount_Suc nth_list_update)
  show ?thesis
    unfolding passInv_def Let_def st'
    using i3 lens cg' cc' tr by (simp del: upt_Suc)
qed

lemma passInv_loop:
  assumes "foldE (trackOutputStep idle) [0..<m]
             (e, replicate (length (trackEngines e)) 0, replicate (length (trackEngines e)) 0) = Inr st"
  shows "passInv e m st"
  using assms
proof (induction m arbitrary: st)
  case 0
  then show ?case
    using passInv_start [of e] by simp
next
  case (Suc m)
  from Suc.prems obtain st1 where
    1: "foldE (trackOutputStep idle) [0..<m]
             (e, replicate (length (trackEngines e)) 0, replicate (length (trackEngines e)) 0) = Inr st1"
    and 2: "trackOutputStep idle m st1 = Inr st"
    by (auto simp: foldE_append elim!: bindE_InrE split: sum.splits)
  from Suc.IH [OF 1] 2 show ?case
    by (rule passInv_step)
qed

lemma subIndex_card: "subIndex src i = card {j. j < i \<and> src ! j = src ! i}"
proof -
  have "{k. k < i \<and> src ! ([0..<i] ! k) = src ! i} = {j. j < i \<and> src ! j = src ! i}"
    by auto
  then show ?thesis
    by (simp add: subIndex_def length_filter_conv_card)
qed

text \<open>
  C6. In a pass of \<open>updateTrackOutputs\<close> that returns, the output steps of the pass are,
  for the physical outputs \<open>0, 1, ...\<close> in this order and for each kind whose override is
  off: the source track of output \<open>i\<close> is asked for its value at the sub-index
  \<open>subIndex src i\<close>, the number of outputs below \<open>i\<close> with the same source, and then output
  \<open>i\<close> is written. So the sub-indices of one source track are 0, 1, 2, ... in the order of
  the physical index, and of two outputs \<open>i < j\<close> with the same source the first gets the
  strictly smaller sub-index.
\<close>

theorem updateTrackOutputs_sub_indices:
  assumes "updateTrackOutputs e = Inr e'"
  shows "(\<exists>tr. trace e' = trace e @ tr
            \<and> outputSteps tr = concat (map (passSteps e) [0..<CONFIG_TRACK_COUNT e]))
       \<and> (\<forall>src i. subIndex src i = card {j. j < i \<and> src ! j = src ! i})
       \<and> (\<forall>src i j. i < j \<and> src ! i = src ! j \<longrightarrow> subIndex src i < subIndex src j)"
proof -
  from assms obtain st where
    run: "foldE (trackOutputStep (isIdle (clock e))) [0..<CONFIG_TRACK_COUNT e]
            (e, replicate (CONFIG_TRACK_COUNT e) 0, replicate (CONFIG_TRACK_COUNT e) 0) = Inr st"
    and e': "e' = fst st"
    by (auto simp: updateTrackOutputs_def Let_def elim!: bindE_InrE)
  have "passInv e (CONFIG_TRACK_COUNT e) st"
    using run unfolding CONFIG_TRACK_COUNT_def by (rule passInv_loop)
  then have "\<exists>tr. trace e' = trace e @ tr
            \<and> outputSteps tr = concat (map (passSteps e) [0..<CONFIG_TRACK_COUNT e])"
    by (simp add: passInv_def Let_def e')
  then show ?thesis
    using subIndex_card subIndex_mono by blast
qed

theorem updateTrackOutputs_sub_indices_witness:
  "\<exists>e' tr. updateTrackOutputs idleScenario = Inr e'
      \<and> trace e' = tr
      \<and> outputSteps tr = [GateDraw 1 0, GateWrite 0, CvDraw 1 0, CvWrite 0,
                           GateDraw 1 1, GateWrite 1, CvDraw 1 1, CvWrite 1]
      \<and> subIndex (gateOutputTracks (project idleScenario)) 0
           < subIndex (gateOutputTracks (project idleScenario)) 1"
proof -
  have "\<exists>e'. updateTrackOutputs idleScenario = Inr e'"
    by (simp add: idleScenario_def model_defs)
  then obtain e' where run: "updateTrackOutputs idleScenario = Inr e'" ..
  have s: "trace idleScenario = []" "CONFIG_TRACK_COUNT idleScenario = 2"
    "passSteps idleScenario 0 = [GateDraw 1 0, GateWrite 0, CvDraw 1 0, CvWrite 0]"
    "passSteps idleScenario 1 = [GateDraw 1 1, GateWrite 1, CvDraw 1 1, CvWrite 1]"
    "gateOutputTracks (project idleScenario) ! 0 = gateOutputTracks (project idleScenario) ! 1"
    by (simp_all add: idleScenario_def passSteps_def subIndex_def model_defs)
  from updateTrackOutputs_sub_indices [OF run] s(1-4)
  have steps: "outputSteps (trace e') = [GateDraw 1 0, GateWrite 0, CvDraw 1 0, CvWrite 0,
                           GateDraw 1 1, GateWrite 1, CvDraw 1 1, CvWrite 1]"
    by (auto simp: upt_rec)
  from updateTrackOutputs_sub_indices [OF run]
  have "\<forall>src i j. i < j \<and> src ! i = src ! j \<longrightarrow> subIndex src i < subIndex src (j::nat)"
    by blast
  with s(5) have "subIndex (gateOutputTracks (project idleScenario)) 0
           < subIndex (gateOutputTracks (project idleScenario)) 1"
    by (metis zero_less_one)
  with run steps show ?thesis
    by blast
qed

subsection \<open>Track setups and the \<open>Last\<close> sentinel\<close>

lemma pushTrackState_present:
  assumes "i < length (trackEngines e)" and "trackEngines e ! i \<noteq> None"
  shows "pushTrackState i e = Inr (emitAll (pushEvents e i) e)"
  using foldE_pushTrackState [of "[i]" e] assms by (simp split: sum.splits)

lemma linkedEngine_resolved:
  assumes "l < 0 \<or> (nat l < length (trackEngines e) \<and> trackEngines e ! nat l \<noteq> None)"
  shows "linkedEngine l e = Inr (if l \<ge> 0 then Some (nat l) else None)"
  using assms by (auto simp: linkedEngine_def getTrackEngine_def)

lemma updateTrackSetup_dangling_link:
  assumes "needsSetup (trackEngines e ! i) (tracks (project e) ! i)"
    and "0 \<le> linkTrack (tracks (project e) ! i)"
  shows "length (trackEngines e) \<le> nat (linkTrack (tracks (project e) ! i))
           \<Longrightarrow> updateTrackSetup i e = Inl OutOfRange"
    and "nat (linkTrack (tracks (project e) ! i)) < length (trackEngines e)
           \<Longrightarrow> trackEngines e ! nat (linkTrack (tracks (project e) ! i)) = None
           \<Longrightarrow> updateTrackSetup i e = Inl NullPointer"
  using assms
  by (simp_all add: updateTrackSetup_def linkedEngine_def getTrackEngine_def Let_def bindE_def)

lemma updateTrackSetup_Last:
  assumes "i < length (trackEngines e)" and "trackMode (tracks (project e) ! i) = TrackMode_Last"
    and "trackEngines e ! i = Some te" and "engineTrackMode te \<noteq> TrackMode_Last"
    and "linkTrack (tracks (project e) ! i) < 0
         \<or> (nat (linkTrack (tracks (project e) ! i)) < length (trackEngines e)
            \<and> trackEngines e ! nat (linkTrack (tracks (project e) ! i)) \<noteq> None)"
  shows "updateTrackSetup i e =
           Inr (emitAll (pushEvents e i @ [TrackEv i (SetSwing (swing (project e)))]) e)"
  using assms(1-4)
  by (simp add: updateTrackSetup_def needsSetup_def reconstructTrackEngine_def
      linkedEngine_resolved [OF assms(5)]
      pushTrackState_present callTrackEngine_present Let_def)

lemma updateTrackSetup_ok:
  assumes i: "i < length (trackEngines e)"
    and last: "trackMode (tracks (project e) ! i) = TrackMode_Last \<longrightarrow> trackEngines e ! i \<noteq> None"
    and link: "needsSetup (trackEngines e ! i) (tracks (project e) ! i) \<longrightarrow>
               linkTrack (tracks (project e) ! i) < 0
               \<or> (nat (linkTrack (tracks (project e) ! i)) < length (trackEngines e)
                  \<and> trackEngines e ! nat (linkTrack (tracks (project e) ! i)) \<noteq> None)"
  shows "\<exists>e'. updateTrackSetup i e = Inr e' \<and> project e' = project e
           \<and> length (trackEngines e') = length (trackEngines e)
           \<and> (\<forall>j. j \<noteq> i \<longrightarrow> trackEngines e' ! j = trackEngines e ! j)
           \<and> trackEngines e' ! i \<noteq> None
           \<and> (trackMode (tracks (project e) ! i) = TrackMode_Last
                 \<longrightarrow> trackEngines e' ! i = trackEngines e ! i)
           \<and> (\<exists>tr. trace e' = trace e @ tr \<and> (\<forall>ev\<in>set tr. \<exists>c. ev = TrackEv i c)
                 \<and> (trackMode (tracks (project e) ! i) = TrackMode_Last
                       \<longrightarrow> (\<forall>m l. TrackEv i (Create m l) \<notin> set tr)))"
proof (cases "needsSetup (trackEngines e ! i) (tracks (project e) ! i)")
  case False
  then have "trackEngines e ! i \<noteq> None"
    by (auto simp: needsSetup_def split: option.splits)
  with False i show ?thesis
    by (simp add: updateTrackSetup_def callTrackEngine_present Let_def emit_def)
next
  case True
  let ?linked = "if linkTrack (tracks (project e) ! i) \<ge> 0
                 then Some (nat (linkTrack (tracks (project e) ! i))) else None"
  have lk: "linkedEngine (linkTrack (tracks (project e) ! i)) e = Inr ?linked"
    using link True by (simp add: linkedEngine_resolved)
  let ?e1 = "reconstructTrackEngine (trackMode (tracks (project e) ! i)) ?linked i e"
  have e1: "project ?e1 = project e" "length (trackEngines ?e1) = length (trackEngines e)"
    "\<forall>j. j \<noteq> i \<longrightarrow> trackEngines ?e1 ! j = trackEngines e ! j"
    "trackEngines ?e1 ! i \<noteq> None"
    "trackMode (tracks (project e) ! i) = TrackMode_Last \<longrightarrow> ?e1 = e"
    "trackMode (tracks (project e) ! i) \<noteq> TrackMode_Last \<longrightarrow>
       trace ?e1 = trace e @ [TrackEv i (Create (trackMode (tracks (project e) ! i)) ?linked)]"
    using i last
    by (auto simp: reconstructTrackEngine_def createTrackEngine_def emit_def
        split: TrackMode.splits)
  let ?e2 = "emitAll (pushEvents ?e1 i) ?e1"
  have push: "pushTrackState i ?e1 = Inr ?e2"
    using i e1(2,4) by (simp add: pushTrackState_present)
  have run: "updateTrackSetup i e = Inr (emit (TrackEv i (SetSwing (swing (project ?e2)))) ?e2)"
    using True push i e1(2,4)
    by (simp add: updateTrackSetup_def Let_def lk callTrackEngine_present)
  let ?e' = "emit (TrackEv i (SetSwing (swing (project ?e2)))) ?e2"
  have tr: "\<exists>tr. trace ?e' = trace e @ tr \<and> (\<forall>ev\<in>set tr. \<exists>c. ev = TrackEv i c)
                 \<and> (trackMode (tracks (project e) ! i) = TrackMode_Last
                       \<longrightarrow> (\<forall>m l. TrackEv i (Create m l) \<notin> set tr))"
  proof (cases "trackMode (tracks (project e) ! i) = TrackMode_Last")
    case True
    with e1(5) show ?thesis
      by (auto simp: pushEvents_def Let_def)
  next
    case False
    with e1(6) show ?thesis
      by (auto simp: pushEvents_def Let_def)
  qed
  have "project ?e' = project e" "length (trackEngines ?e') = length (trackEngines e)"
    "\<forall>j. j \<noteq> i \<longrightarrow> trackEngines ?e' ! j = trackEngines e ! j"
    "trackEngines ?e' ! i \<noteq> None"
    "trackMode (tracks (project e) ! i) = TrackMode_Last \<longrightarrow> trackEngines ?e' ! i = trackEngines e ! i"
    using e1 by auto
  with run tr show ?thesis
    by blast
qed

lemma updateTrackSetups_loop:
  assumes last: "\<forall>j<length (trackEngines e).
                   trackMode (tracks (project e) ! j) = TrackMode_Last \<longrightarrow> trackEngines e ! j \<noteq> None"
    and links: "\<forall>j<length (trackEngines e).
                   needsSetup (trackEngines e ! j) (tracks (project e) ! j) \<longrightarrow>
                   linkTrack (tracks (project e) ! j) < 0
                   \<or> (nat (linkTrack (tracks (project e) ! j)) < length (trackEngines e)
                      \<and> (nat (linkTrack (tracks (project e) ! j)) < j
                         \<or> trackEngines e ! nat (linkTrack (tracks (project e) ! j)) \<noteq> None))"
    and m: "m \<le> length (trackEngines e)"
  shows "\<exists>s. foldE updateTrackSetup [0..<m] e = Inr s \<and> project s = project e
           \<and> length (trackEngines s) = length (trackEngines e)
           \<and> (\<forall>j. m \<le> j \<longrightarrow> trackEngines s ! j = trackEngines e ! j)
           \<and> (\<forall>j<m. trackEngines s ! j \<noteq> None)
           \<and> (\<forall>j. trackMode (tracks (project e) ! j) = TrackMode_Last
                    \<longrightarrow> trackEngines s ! j = trackEngines e ! j)
           \<and> (\<exists>tr. trace s = trace e @ tr
                 \<and> (\<forall>j md l. trackMode (tracks (project e) ! j) = TrackMode_Last
                       \<longrightarrow> TrackEv j (Create md l) \<notin> set tr))"
  using m
proof (induction m)
  case 0
  show ?case by simp
next
  case (Suc m)
  then obtain s tr where s: "foldE updateTrackSetup [0..<m] e = Inr s" "project s = project e"
      "length (trackEngines s) = length (trackEngines e)"
      "\<forall>j. m \<le> j \<longrightarrow> trackEngines s ! j = trackEngines e ! j"
      "\<forall>j<m. trackEngines s ! j \<noteq> None"
      "\<forall>j. trackMode (tracks (project e) ! j) = TrackMode_Last
                    \<longrightarrow> trackEngines s ! j = trackEngines e ! j"
    and tr: "trace s = trace e @ tr"
      "\<forall>j md l. trackMode (tracks (project e) ! j) = TrackMode_Last
                       \<longrightarrow> TrackEv j (Create md l) \<notin> set tr"
    by auto
  have i: "m < length (trackEngines s)"
    using Suc.prems s(3) by simp
  have l: "trackMode (tracks (project s) ! m) = TrackMode_Last \<longrightarrow> trackEngines s ! m \<noteq> None"
    using last Suc.prems s(2,4) by simp
  have same: "trackEngines s ! m = trackEngines e ! m"
    using s(4) by simp
  have k: "needsSetup (trackEngines s ! m) (tracks (project s) ! m) \<longrightarrow>
             linkTrack (tracks (project s) ! m) < 0
             \<or> (nat (linkTrack (tracks (project s) ! m)) < length (trackEngines s)
                \<and> trackEngines s ! nat (linkTrack (tracks (project s) ! m)) \<noteq> None)"
  proof
    assume "needsSetup (trackEngines s ! m) (tracks (project s) ! m)"
    then have "needsSetup (trackEngines e ! m) (tracks (project e) ! m)"
      by (simp add: same s(2))
    with links Suc.prems have c: "linkTrack (tracks (project e) ! m) < 0
                   \<or> (nat (linkTrack (tracks (project e) ! m)) < length (trackEngines e)
                      \<and> (nat (linkTrack (tracks (project e) ! m)) < m
                         \<or> trackEngines e ! nat (linkTrack (tracks (project e) ! m)) \<noteq> None))"
      by simp
    show "linkTrack (tracks (project s) ! m) < 0
             \<or> (nat (linkTrack (tracks (project s) ! m)) < length (trackEngines s)
                \<and> trackEngines s ! nat (linkTrack (tracks (project s) ! m)) \<noteq> None)"
    proof (cases "linkTrack (tracks (project e) ! m) < 0")
      case True
      then show ?thesis by (simp add: s(2))
    next
      case False
      with c have b: "nat (linkTrack (tracks (project e) ! m)) < length (trackEngines e)"
        and d: "nat (linkTrack (tracks (project e) ! m)) < m
                 \<or> trackEngines e ! nat (linkTrack (tracks (project e) ! m)) \<noteq> None"
        by auto
      have "trackEngines s ! nat (linkTrack (tracks (project e) ! m)) \<noteq> None"
      proof (cases "nat (linkTrack (tracks (project e) ! m)) < m")
        case True
        with s(5) show ?thesis by simp
      next
        case False
        with d s(4) show ?thesis by simp
      qed
      with b show ?thesis
        by (simp add: s(2,3))
    qed
  qed
  from updateTrackSetup_ok [OF i l k] obtain s' tr' where
    s': "updateTrackSetup m s = Inr s'" "project s' = project s"
      "length (trackEngines s') = length (trackEngines s)"
      "\<forall>j. j \<noteq> m \<longrightarrow> trackEngines s' ! j = trackEngines s ! j"
      "trackEngines s' ! m \<noteq> None"
      "trackMode (tracks (project s) ! m) = TrackMode_Last
                 \<longrightarrow> trackEngines s' ! m = trackEngines s ! m"
    and tr': "trace s' = trace s @ tr'" "\<forall>ev\<in>set tr'. \<exists>c. ev = TrackEv m c"
      "trackMode (tracks (project s) ! m) = TrackMode_Last
                       \<longrightarrow> (\<forall>md l. TrackEv m (Create md l) \<notin> set tr')"
    by blast
  have run: "foldE updateTrackSetup [0..<Suc m] e = Inr s'"
    using s(1) s'(1) by (simp add: foldE_append)
  have keep: "\<forall>j. Suc m \<le> j \<longrightarrow> trackEngines s' ! j = trackEngines e ! j"
    using s(4) s'(4) by simp
  have pres: "\<forall>j<Suc m. trackEngines s' ! j \<noteq> None"
    using s(5) s'(4,5) by (metis less_Suc_eq)
  have lasts: "\<forall>j. trackMode (tracks (project e) ! j) = TrackMode_Last
                    \<longrightarrow> trackEngines s' ! j = trackEngines e ! j"
    using s(2,6) s'(4,6) by metis
  have nocreate: "\<forall>j md l. trackMode (tracks (project e) ! j) = TrackMode_Last
                       \<longrightarrow> TrackEv j (Create md l) \<notin> set (tr @ tr')"
    using tr(2) tr'(2,3) s(2) by auto
  have "trace s' = trace e @ (tr @ tr')"
    using tr(1) tr'(1) by simp
  with nocreate have "\<exists>tr. trace s' = trace e @ tr
                 \<and> (\<forall>j md l. trackMode (tracks (project e) ! j) = TrackMode_Last
                       \<longrightarrow> TrackEv j (Create md l) \<notin> set tr)"
    by blast
  with run s(2,3) s'(2,3) keep pres lasts show ?case
    by simp
qed

lemma updateTrackSetup_Inr:
  assumes run: "updateTrackSetup i e = Inr e'"
  shows "i < length (trackEngines e)"
    and "project e' = project e"
    and "length (trackEngines e') = length (trackEngines e)"
    and "\<forall>j. j \<noteq> i \<longrightarrow> trackEngines e' ! j = trackEngines e ! j"
    and "trackMode (tracks (project e) ! i) = TrackMode_Last \<longrightarrow> trackEngines e ! i \<noteq> None"
    and "needsSetup (trackEngines e ! i) (tracks (project e) ! i) \<longrightarrow>
           linkTrack (tracks (project e) ! i) < 0
           \<or> (nat (linkTrack (tracks (project e) ! i)) < length (trackEngines e)
              \<and> trackEngines e ! nat (linkTrack (tracks (project e) ! i)) \<noteq> None)"
proof -
  from run obtain e1 where
    e1: "(if needsSetup (trackEngines e ! i) (tracks (project e) ! i) then
               bindE (linkedEngine (linkTrack (tracks (project e) ! i)) e) (\<lambda>linked.
                 pushTrackState i (reconstructTrackEngine (trackMode (tracks (project e) ! i))
                                     linked i e))
          else Inr e) = Inr e1"
    and sw: "callTrackEngine i (SetSwing (swing (project e1))) e1 = Inr e'"
    by (auto simp: updateTrackSetup_def Let_def elim!: bindE_InrE)
  from sw have i1: "i < length (trackEngines e1)" and e': "e' = emit (TrackEv i (SetSwing (swing (project e1)))) e1"
    by (simp_all add: callTrackEngine_Inr)
  have push: "project s' = project s \<and> trackEngines s' = trackEngines s
              \<and> i < length (trackEngines s) \<and> trackEngines s ! i \<noteq> None"
    if "pushTrackState i s = Inr s'" for s s'
    using that
    by (auto simp: pushTrackState_def Let_def callTrackEngine_Inr elim!: bindE_InrE)
  have rec: "project (reconstructTrackEngine m l i e) = project e
             \<and> length (trackEngines (reconstructTrackEngine m l i e)) = length (trackEngines e)
             \<and> (\<forall>j. j \<noteq> i \<longrightarrow> trackEngines (reconstructTrackEngine m l i e) ! j = trackEngines e ! j)
             \<and> (m = TrackMode_Last \<longrightarrow> reconstructTrackEngine m l i e = e)" for m l
    by (auto simp: reconstructTrackEngine_def createTrackEngine_def emit_def
        split: TrackMode.splits)
  have main: "project e1 = project e \<and> length (trackEngines e1) = length (trackEngines e)
      \<and> (\<forall>j. j \<noteq> i \<longrightarrow> trackEngines e1 ! j = trackEngines e ! j)
      \<and> (trackMode (tracks (project e) ! i) = TrackMode_Last \<longrightarrow> trackEngines e ! i \<noteq> None)
      \<and> (needsSetup (trackEngines e ! i) (tracks (project e) ! i) \<longrightarrow>
           linkTrack (tracks (project e) ! i) < 0
           \<or> (nat (linkTrack (tracks (project e) ! i)) < length (trackEngines e)
              \<and> trackEngines e ! nat (linkTrack (tracks (project e) ! i)) \<noteq> None))"
  proof (cases "needsSetup (trackEngines e ! i) (tracks (project e) ! i)")
    case False
    with e1 have "e1 = e"
      by simp
    moreover have "trackEngines e ! i \<noteq> None"
      using False by (auto simp: needsSetup_def split: option.splits)
    ultimately show ?thesis
      using False by simp
  next
    case True
    with e1 obtain linked where
      lk: "linkedEngine (linkTrack (tracks (project e) ! i)) e = Inr linked"
      and p: "pushTrackState i (reconstructTrackEngine (trackMode (tracks (project e) ! i))
                                  linked i e) = Inr e1"
      by (auto elim!: bindE_InrE)
    from lk have link: "linkTrack (tracks (project e) ! i) < 0
           \<or> (nat (linkTrack (tracks (project e) ! i)) < length (trackEngines e)
              \<and> trackEngines e ! nat (linkTrack (tracks (project e) ! i)) \<noteq> None)"
      by (auto simp: linkedEngine_def getTrackEngine_Inr split: if_splits elim!: bindE_InrE)
    from push [OF p] rec [of "trackMode (tracks (project e) ! i)" linked] link
    show ?thesis
      by auto
  qed
  from main i1 show "i < length (trackEngines e)"
    by simp
  from main e' show "project e' = project e"
    and "length (trackEngines e') = length (trackEngines e)"
    and "\<forall>j. j \<noteq> i \<longrightarrow> trackEngines e' ! j = trackEngines e ! j"
    by simp_all
  from main show "trackMode (tracks (project e) ! i) = TrackMode_Last \<longrightarrow> trackEngines e ! i \<noteq> None"
    and "needsSetup (trackEngines e ! i) (tracks (project e) ! i) \<longrightarrow>
           linkTrack (tracks (project e) ! i) < 0
           \<or> (nat (linkTrack (tracks (project e) ! i)) < length (trackEngines e)
              \<and> trackEngines e ! nat (linkTrack (tracks (project e) ! i)) \<noteq> None)"
    by simp_all
qed

lemma updateTrackSetups_prefix_Inr:
  assumes "foldE updateTrackSetup [0..<m] e = Inr s"
  shows "m \<le> length (trackEngines e) \<and> project s = project e
       \<and> length (trackEngines s) = length (trackEngines e)
       \<and> (\<forall>j. m \<le> j \<longrightarrow> trackEngines s ! j = trackEngines e ! j)
       \<and> (\<forall>j<m. trackMode (tracks (project e) ! j) = TrackMode_Last \<longrightarrow> trackEngines e ! j \<noteq> None)
       \<and> (\<forall>j<m. needsSetup (trackEngines e ! j) (tracks (project e) ! j) \<longrightarrow>
                   linkTrack (tracks (project e) ! j) < 0
                   \<or> (nat (linkTrack (tracks (project e) ! j)) < length (trackEngines e)
                      \<and> (nat (linkTrack (tracks (project e) ! j)) < j
                         \<or> trackEngines e ! nat (linkTrack (tracks (project e) ! j)) \<noteq> None)))"
  using assms
proof (induction m arbitrary: s)
  case 0
  then show ?case by simp
next
  case (Suc m)
  from Suc.prems obtain s1 where
    pre: "foldE updateTrackSetup [0..<m] e = Inr s1" and step: "updateTrackSetup m s1 = Inr s"
    by (auto simp: foldE_append elim!: bindE_InrE split: sum.splits)
  from Suc.IH [OF pre] have ih: "m \<le> length (trackEngines e)" "project s1 = project e"
    "length (trackEngines s1) = length (trackEngines e)"
    "\<forall>j. m \<le> j \<longrightarrow> trackEngines s1 ! j = trackEngines e ! j"
    "\<forall>j<m. trackMode (tracks (project e) ! j) = TrackMode_Last \<longrightarrow> trackEngines e ! j \<noteq> None"
    "\<forall>j<m. needsSetup (trackEngines e ! j) (tracks (project e) ! j) \<longrightarrow>
                   linkTrack (tracks (project e) ! j) < 0
                   \<or> (nat (linkTrack (tracks (project e) ! j)) < length (trackEngines e)
                      \<and> (nat (linkTrack (tracks (project e) ! j)) < j
                         \<or> trackEngines e ! nat (linkTrack (tracks (project e) ! j)) \<noteq> None))"
    by simp_all
  note st = updateTrackSetup_Inr [OF step]
  have same: "trackEngines s1 ! m = trackEngines e ! m"
    using ih(4) by simp
  have a: "Suc m \<le> length (trackEngines e)"
    using st(1) ih(3) by simp
  have b: "project s = project e" "length (trackEngines s) = length (trackEngines e)"
    using st(2,3) ih(2,3) by simp_all
  have c: "\<forall>j. Suc m \<le> j \<longrightarrow> trackEngines s ! j = trackEngines e ! j"
    using st(4) ih(4) by simp
  have d: "trackMode (tracks (project e) ! m) = TrackMode_Last \<longrightarrow> trackEngines e ! m \<noteq> None"
    using st(5) same ih(2) by simp
  have f: "needsSetup (trackEngines e ! m) (tracks (project e) ! m) \<longrightarrow>
                   linkTrack (tracks (project e) ! m) < 0
                   \<or> (nat (linkTrack (tracks (project e) ! m)) < length (trackEngines e)
                      \<and> (nat (linkTrack (tracks (project e) ! m)) < m
                         \<or> trackEngines e ! nat (linkTrack (tracks (project e) ! m)) \<noteq> None))"
  proof
    assume "needsSetup (trackEngines e ! m) (tracks (project e) ! m)"
    with st(6) same ih(2,3) have k: "linkTrack (tracks (project e) ! m) < 0
           \<or> (nat (linkTrack (tracks (project e) ! m)) < length (trackEngines e)
              \<and> trackEngines s1 ! nat (linkTrack (tracks (project e) ! m)) \<noteq> None)"
      by simp
    show "linkTrack (tracks (project e) ! m) < 0
                   \<or> (nat (linkTrack (tracks (project e) ! m)) < length (trackEngines e)
                      \<and> (nat (linkTrack (tracks (project e) ! m)) < m
                         \<or> trackEngines e ! nat (linkTrack (tracks (project e) ! m)) \<noteq> None))"
    proof (cases "nat (linkTrack (tracks (project e) ! m)) < m")
      case True
      with k show ?thesis by auto
    next
      case False
      then have "trackEngines s1 ! nat (linkTrack (tracks (project e) ! m))
                   = trackEngines e ! nat (linkTrack (tracks (project e) ! m))"
        using ih(4) by simp
      with k show ?thesis by auto
    qed
  qed
  from a b c d f ih(5,6) show ?case
    by (auto simp: less_Suc_eq)
qed

text \<open>
  C8, as the code has it. \<open>updateTrackSetups\<close> returns exactly when every track whose
  model mode is \<^verbatim>\<open>Last\<close> has an engine in its slot and the link of every track that is
  set up is resolvable: negative, or the index of a slot of the array that is lower than
  the track's own or holds an engine (the code dereferences the linked slot before the
  \<^verbatim>\<open>switch\<close>, and the slot's own pointer after it). When it returns, the model is
  unchanged, every slot holds an engine, and for a track whose mode is \<^verbatim>\<open>Last\<close> the slot
  keeps the engine it had and no engine is created for it. For such a track, with a
  resolvable link, the iteration hands the existing engine the mute, fill and pattern of
  the track state and the swing of the project and does nothing else; for a \<^verbatim>\<open>Last\<close>
  track whose slot is empty the iteration ends in an error.
\<close>

theorem updateTrackSetups_last_mode:
  "((\<exists>e'. updateTrackSetups e = Inr e') \<longleftrightarrow>
      (\<forall>j<CONFIG_TRACK_COUNT e.
          trackMode (tracks (project e) ! j) = TrackMode_Last \<longrightarrow> trackEngines e ! j \<noteq> None)
      \<and> (\<forall>j<CONFIG_TRACK_COUNT e.
            needsSetup (trackEngines e ! j) (tracks (project e) ! j) \<longrightarrow>
            linkTrack (tracks (project e) ! j) < 0
            \<or> (nat (linkTrack (tracks (project e) ! j)) < CONFIG_TRACK_COUNT e
               \<and> (nat (linkTrack (tracks (project e) ! j)) < j
                  \<or> trackEngines e ! nat (linkTrack (tracks (project e) ! j)) \<noteq> None))))
   \<and> (\<forall>e'. updateTrackSetups e = Inr e' \<longrightarrow>
          project e' = project e
        \<and> allEnginesPresent e'
        \<and> (\<forall>j. trackMode (tracks (project e) ! j) = TrackMode_Last
                \<longrightarrow> trackEngines e' ! j = trackEngines e ! j)
        \<and> (\<exists>tr. trace e' = trace e @ tr
              \<and> (\<forall>j md l. trackMode (tracks (project e) ! j) = TrackMode_Last
                    \<longrightarrow> TrackEv j (Create md l) \<notin> set tr)))
   \<and> (\<forall>i te. i < CONFIG_TRACK_COUNT e
          \<and> trackMode (tracks (project e) ! i) = TrackMode_Last
          \<and> trackEngines e ! i = Some te \<and> engineTrackMode te \<noteq> TrackMode_Last
          \<and> (linkTrack (tracks (project e) ! i) < 0
             \<or> (nat (linkTrack (tracks (project e) ! i)) < CONFIG_TRACK_COUNT e
                \<and> trackEngines e ! nat (linkTrack (tracks (project e) ! i)) \<noteq> None))
        \<longrightarrow> updateTrackSetup i e =
              Inr (emitAll (pushEvents e i @ [TrackEv i (SetSwing (swing (project e)))]) e))
   \<and> (\<forall>i. i < CONFIG_TRACK_COUNT e
          \<and> trackMode (tracks (project e) ! i) = TrackMode_Last \<and> trackEngines e ! i = None
        \<longrightarrow> (\<exists>err. updateTrackSetup i e = Inl err))"
proof -
  let ?last = "\<forall>j<CONFIG_TRACK_COUNT e.
          trackMode (tracks (project e) ! j) = TrackMode_Last \<longrightarrow> trackEngines e ! j \<noteq> None"
  let ?links = "\<forall>j<CONFIG_TRACK_COUNT e.
            needsSetup (trackEngines e ! j) (tracks (project e) ! j) \<longrightarrow>
            linkTrack (tracks (project e) ! j) < 0
            \<or> (nat (linkTrack (tracks (project e) ! j)) < CONFIG_TRACK_COUNT e
               \<and> (nat (linkTrack (tracks (project e) ! j)) < j
                  \<or> trackEngines e ! nat (linkTrack (tracks (project e) ! j)) \<noteq> None))"
  let ?post = "\<lambda>e'. project e' = project e
        \<and> allEnginesPresent e'
        \<and> (\<forall>j. trackMode (tracks (project e) ! j) = TrackMode_Last
                \<longrightarrow> trackEngines e' ! j = trackEngines e ! j)
        \<and> (\<exists>tr. trace e' = trace e @ tr
              \<and> (\<forall>j md l. trackMode (tracks (project e) ! j) = TrackMode_Last
                    \<longrightarrow> TrackEv j (Create md l) \<notin> set tr))"
  have ok: "\<exists>e'. updateTrackSetups e = Inr e' \<and> ?post e'" if last: ?last and links: ?links
  proof -
    from updateTrackSetups_loop [OF last [unfolded CONFIG_TRACK_COUNT_def]
        links [unfolded CONFIG_TRACK_COUNT_def] order_refl]
    obtain s where s: "foldE updateTrackSetup [0..<length (trackEngines e)] e = Inr s"
        "project s = project e" "length (trackEngines s) = length (trackEngines e)"
        "\<forall>j<length (trackEngines e). trackEngines s ! j \<noteq> None"
        "\<forall>j. trackMode (tracks (project e) ! j) = TrackMode_Last
                      \<longrightarrow> trackEngines s ! j = trackEngines e ! j"
        "\<exists>tr. trace s = trace e @ tr
                   \<and> (\<forall>j md l. trackMode (tracks (project e) ! j) = TrackMode_Last
                         \<longrightarrow> TrackEv j (Create md l) \<notin> set tr)"
      by blast
    have "allEnginesPresent s"
      using s(3,4) by (simp add: allEnginesPresent_def list_all_length)
    with s show ?thesis
      by (simp add: updateTrackSetups_def CONFIG_TRACK_COUNT_def)
  qed
  have nec: "?last \<and> ?links" if "updateTrackSetups e = Inr e'" for e'
    using updateTrackSetups_prefix_Inr [of "length (trackEngines e)" e e'] that
    by (simp add: updateTrackSetups_def CONFIG_TRACK_COUNT_def)
  have iff: "(\<exists>e'. updateTrackSetups e = Inr e') \<longleftrightarrow> ?last \<and> ?links"
    using ok nec by blast
  have post: "\<forall>e'. updateTrackSetups e = Inr e' \<longrightarrow> ?post e'"
  proof (rule allI, rule impI)
    fix e'
    assume run: "updateTrackSetups e = Inr e'"
    from nec [OF run] ok obtain e'' where "updateTrackSetups e = Inr e''" and p: "?post e''"
      by blast
    with run have "e'' = e'"
      by simp
    with p show "?post e'"
      by simp
  qed
  have step: "\<forall>i te. i < CONFIG_TRACK_COUNT e
          \<and> trackMode (tracks (project e) ! i) = TrackMode_Last
          \<and> trackEngines e ! i = Some te \<and> engineTrackMode te \<noteq> TrackMode_Last
          \<and> (linkTrack (tracks (project e) ! i) < 0
             \<or> (nat (linkTrack (tracks (project e) ! i)) < CONFIG_TRACK_COUNT e
                \<and> trackEngines e ! nat (linkTrack (tracks (project e) ! i)) \<noteq> None))
        \<longrightarrow> updateTrackSetup i e =
              Inr (emitAll (pushEvents e i @ [TrackEv i (SetSwing (swing (project e)))]) e)"
    by (simp add: updateTrackSetup_Last CONFIG_TRACK_COUNT_def)
  have empty: "\<forall>i. i < CONFIG_TRACK_COUNT e
          \<and> trackMode (tracks (project e) ! i) = TrackMode_Last \<and> trackEngines e ! i = None
        \<longrightarrow> (\<exists>err. updateTrackSetup i e = Inl err)"
  proof (rule allI, rule impI)
    fix i
    assume a: "i < CONFIG_TRACK_COUNT e
          \<and> trackMode (tracks (project e) ! i) = TrackMode_Last \<and> trackEngines e ! i = None"
    have "updateTrackSetup i e \<noteq> Inr e'" for e'
      using updateTrackSetup_Inr(5) [of i e e'] a by auto
    then show "\<exists>err. updateTrackSetup i e = Inl err"
      by (cases "updateTrackSetup i e") auto
  qed
  from iff post step empty show ?thesis
    by (intro conjI)
qed

theorem updateTrackSetups_last_mode_witness:
  "trackMode (tracks (project lastModeScenario) ! 0) = TrackMode_Last
   \<and> trackEngines lastModeScenario ! 0 = Some scenarioTrackEngine
   \<and> trackMode (tracks (project lastModeScenario) ! 1) = TrackMode_Curve
   \<and> linkTrack (tracks (project lastModeScenario) ! 1) = 0
   \<and> (\<exists>e'. updateTrackSetups lastModeScenario = Inr e'
         \<and> allEnginesPresent e'
         \<and> trackEngines e' ! 0 = Some scenarioTrackEngine
         \<and> updateTrackSetup 0 lastModeScenario =
             Inr (emitAll [TrackEv 0 (SetMute False), TrackEv 0 (SetFill False),
                           TrackEv 0 (SetPattern 0), TrackEv 0 (SetSwing 50)] lastModeScenario))
   \<and> trackEngines lastModeEmptySlot ! 0 = None
   \<and> (\<exists>err. updateTrackSetup 0 lastModeEmptySlot = Inl err)
   \<and> \<not> (\<exists>e'. updateTrackSetups lastModeEmptySlot = Inr e')"
proof -
  have h: "\<forall>j<CONFIG_TRACK_COUNT lastModeScenario.
             trackMode (tracks (project lastModeScenario) ! j) = TrackMode_Last
               \<longrightarrow> trackEngines lastModeScenario ! j \<noteq> None"
    by (auto simp: lastModeScenario_def less_Suc_eq numeral_2_eq_2 model_defs)
  have k: "\<forall>j<CONFIG_TRACK_COUNT lastModeScenario.
             needsSetup (trackEngines lastModeScenario ! j) (tracks (project lastModeScenario) ! j) \<longrightarrow>
             linkTrack (tracks (project lastModeScenario) ! j) < 0
             \<or> (nat (linkTrack (tracks (project lastModeScenario) ! j))
                  < CONFIG_TRACK_COUNT lastModeScenario
                \<and> (nat (linkTrack (tracks (project lastModeScenario) ! j)) < j
                   \<or> trackEngines lastModeScenario
                       ! nat (linkTrack (tracks (project lastModeScenario) ! j)) \<noteq> None))"
    by (auto simp: lastModeScenario_def less_Suc_eq numeral_2_eq_2 model_defs)
  have s: "trackMode (tracks (project lastModeScenario) ! 0) = TrackMode_Last"
    "trackEngines lastModeScenario ! 0 = Some scenarioTrackEngine"
    "0 < CONFIG_TRACK_COUNT lastModeScenario"
    "engineTrackMode scenarioTrackEngine \<noteq> TrackMode_Last"
    "pushEvents lastModeScenario 0 = [TrackEv 0 (SetMute False), TrackEv 0 (SetFill False),
                           TrackEv 0 (SetPattern 0)]"
    "swing (project lastModeScenario) = 50"
    "linkTrack (tracks (project lastModeScenario) ! 0) < 0"
    by (simp_all add: lastModeScenario_def pushEvents_def model_defs)
  have t: "trackMode (tracks (project lastModeScenario) ! 1) = TrackMode_Curve"
    "linkTrack (tracks (project lastModeScenario) ! 1) = 0"
    by (simp_all add: lastModeScenario_def model_defs)
  have u: "0 < CONFIG_TRACK_COUNT lastModeEmptySlot"
    "trackMode (tracks (project lastModeEmptySlot) ! 0) = TrackMode_Last"
    "trackEngines lastModeEmptySlot ! 0 = None"
    by (simp_all add: lastModeEmptySlot_def lastModeScenario_def model_defs)
  note main = updateTrackSetups_last_mode [of lastModeScenario]
  from main h k obtain e' where run: "updateTrackSetups lastModeScenario = Inr e'"
    by blast
  from main run have post: "allEnginesPresent e'"
    "\<forall>j. trackMode (tracks (project lastModeScenario) ! j) = TrackMode_Last
                    \<longrightarrow> trackEngines e' ! j = trackEngines lastModeScenario ! j"
    by blast+
  from main have step: "\<forall>i te. i < CONFIG_TRACK_COUNT lastModeScenario
              \<and> trackMode (tracks (project lastModeScenario) ! i) = TrackMode_Last
              \<and> trackEngines lastModeScenario ! i = Some te \<and> engineTrackMode te \<noteq> TrackMode_Last
              \<and> (linkTrack (tracks (project lastModeScenario) ! i) < 0
                 \<or> (nat (linkTrack (tracks (project lastModeScenario) ! i))
                      < CONFIG_TRACK_COUNT lastModeScenario
                    \<and> trackEngines lastModeScenario
                        ! nat (linkTrack (tracks (project lastModeScenario) ! i)) \<noteq> None))
            \<longrightarrow> updateTrackSetup i lastModeScenario =
                  Inr (emitAll (pushEvents lastModeScenario i
                         @ [TrackEv i (SetSwing (swing (project lastModeScenario)))]) lastModeScenario)"
    by blast
  from post(2) s(1,2) have keep: "trackEngines e' ! 0 = Some scenarioTrackEngine"
    by simp
  from step s have one: "updateTrackSetup 0 lastModeScenario =
             Inr (emitAll [TrackEv 0 (SetMute False), TrackEv 0 (SetFill False),
                           TrackEv 0 (SetPattern 0), TrackEv 0 (SetSwing 50)] lastModeScenario)"
    by fastforce
  note main2 = updateTrackSetups_last_mode [of lastModeEmptySlot]
  from main2 u have fail: "\<exists>err. updateTrackSetup 0 lastModeEmptySlot = Inl err"
    by blast
  from main2 u have never: "\<not> (\<exists>e'. updateTrackSetups lastModeEmptySlot = Inr e')"
    by blast
  from run post(1) keep one fail never s(1,2) t u(3) show ?thesis
    by blast
qed

theorem updateTrackSetups_last_mode_counterexample:
  "trackMode (tracks (project lastModeEmptySlot) ! 0) = TrackMode_Last
   \<and> trackEngines lastModeEmptySlot ! 0 = None
   \<and> updateTrackSetups lastModeEmptySlot = Inl NullPointer"
  by (simp add: lastModeEmptySlot_def lastModeScenario_def reconstructTrackEngine_def
      createTrackEngine_def model_defs)

subsection \<open>Idle outputs in an output pass\<close>

lemma idleSteps_simps [simp]:
  "idleSteps [] = []"
  "idleSteps (tr1 @ tr2) = idleSteps tr1 @ idleSteps tr2"
  "idleSteps (ev # tr) = (case idleStep ev of None \<Rightarrow> [] | Some s \<Rightarrow> [s]) @ idleSteps tr"
  by (simp_all add: idleSteps_def List.map_filter_def split: option.splits)

lemma clearedEngines_length [simp]: "length (clearedEngines e m) = length (trackEngines e)"
  by (simp add: clearedEngines_def)

lemma clearedEngines_0: "clearedEngines e 0 = trackEngines e"
  by (rule nth_equalityI) (simp_all add: clearedEngines_def option.map_ident)

lemma clearedEngines_nth:
  "s < length (trackEngines e) \<Longrightarrow>
   clearedEngines e m ! s =
     map_option (\<lambda>te. if int s \<noteq> selectedTrackIndex (project e) \<and> s < m
                       then te\<lparr>idleOutput := False\<rparr> else te) (trackEngines e ! s)"
  by (simp add: clearedEngines_def)

lemma clearedEngines_selected:
  "int m = selectedTrackIndex (project e) \<Longrightarrow> clearedEngines e (Suc m) = clearedEngines e m"
  by (rule nth_equalityI) (auto simp: clearedEngines_nth less_Suc_eq intro!: option.map_cong)

lemma clearedEngines_Suc:
  assumes "int m \<noteq> selectedTrackIndex (project e)" and "m < length (trackEngines e)"
    and "clearedEngines e m ! m = Some te"
  shows "(clearedEngines e m)[m := Some (te\<lparr>idleOutput := False\<rparr>)] = clearedEngines e (Suc m)"
proof (rule nth_equalityI)
  show "length ((clearedEngines e m)[m := Some (te\<lparr>idleOutput := False\<rparr>)])
          = length (clearedEngines e (Suc m))"
    by simp
next
  fix s
  assume "s < length ((clearedEngines e m)[m := Some (te\<lparr>idleOutput := False\<rparr>)])"
  then have s: "s < length (trackEngines e)" by simp
  show "(clearedEngines e m)[m := Some (te\<lparr>idleOutput := False\<rparr>)] ! s = clearedEngines e (Suc m) ! s"
  proof (cases "s = m")
    case True
    with assms s show ?thesis
      by (auto simp: clearedEngines_nth)
  next
    case False
    with s show ?thesis
      by (auto simp: clearedEngines_nth less_Suc_eq intro!: option.map_cong)
  qed
qed

lemma advertisesIdle_cleared:
  assumes "s < length (trackEngines e)" and "clearedEngines e (Suc m) ! s = Some te"
  shows "(idle \<and> idleOutput te) = (idle \<and> advertisesIdle (trackEngines e ! s)
            \<and> (int s = selectedTrackIndex (project e) \<or> m < s))"
  using assms
  by (cases "trackEngines e ! s")
    (auto simp: clearedEngines_nth advertisesIdle_def less_Suc_eq split: if_splits)

lemma clearIdleOutput_engines:
  assumes "clearIdleOutput i e = Inr e'"
  shows "\<exists>te. i < length (trackEngines e) \<and> trackEngines e ! i = Some te
           \<and> trackEngines e' = (trackEngines e)[i := Some (te\<lparr>idleOutput := False\<rparr>)]"
  using assms by (auto simp: clearIdleOutput_def emit_def getTrackEngine_Inr elim!: bindE_InrE)

lemma gateOutputStep_idle:
  assumes "gateOutputStep idle i (e, tgi) = Inr (e', tgi')"
  shows "trackEngines e' = trackEngines e"
    and "\<exists>tr. trace e' = trace e @ tr
           \<and> (gateOutputOverride e \<longrightarrow> idleSteps tr = [])
           \<and> (\<not> gateOutputOverride e \<longrightarrow>
                 (\<exists>te. gateOutputTracks (project e) ! i < length (trackEngines e)
                    \<and> trackEngines e ! (gateOutputTracks (project e) ! i) = Some te
                    \<and> idleSteps tr = [Drawn (idle \<and> idleOutput te) (gateOutputTracks (project e) ! i),
                                      Written i]))"
  using assms
  by (auto simp: gateOutputStep_def Let_def setGate_def emit_def getTrackEngine_Inr
      elim!: bindE_InrE split: if_splits)

lemma cvOutputStep_idle:
  assumes "cvOutputStep idle i (e, tci) = Inr (e', tci')"
  shows "trackEngines e' = trackEngines e"
    and "\<exists>tr. trace e' = trace e @ tr
           \<and> (cvOutputOverride e \<longrightarrow> idleSteps tr = [])
           \<and> (\<not> cvOutputOverride e \<longrightarrow>
                 (\<exists>te. cvOutputTracks (project e) ! i < length (trackEngines e)
                    \<and> trackEngines e ! (cvOutputTracks (project e) ! i) = Some te
                    \<and> idleSteps tr = [Drawn (idle \<and> idleOutput te) (cvOutputTracks (project e) ! i),
                                      Written i]))"
  using assms
  by (auto simp: cvOutputStep_def Let_def setChannel_def emit_def getTrackEngine_Inr
      elim!: bindE_InrE split: if_splits)

lemma idleInv_step:
  assumes inv: "idleInv e m st" and step: "trackOutputStep (isIdle (clock e)) m st = Inr st'"
  shows "idleInv e (Suc m) st'"
proof -
  obtain e0 tgi tci where st: "st = (e0, tgi, tci)" by (cases st) auto
  obtain e3 tgi' tci' where st': "st' = (e3, tgi', tci')" by (cases st') auto
  let ?sel = "selectedTrackIndex (project e)"
  let ?g = "gateOutputTracks (project e)"
  let ?c = "cvOutputTracks (project e)"
  let ?idle = "isIdle (clock e)"
  from inv st have i0: "project e0 = project e" "trackEngines e0 = clearedEngines e m"
      "gateOutputOverride e0 = gateOutputOverride e" "cvOutputOverride e0 = cvOutputOverride e"
    by (simp_all add: idleInv_def)
  from inv st obtain tr0 where tr0: "trace e0 = trace e @ tr0"
      "idleSteps tr0 = concat (map (idlePassSteps e) [0..<m])"
    by (auto simp: idleInv_def)
  from step st st' obtain e1 e2 where
    c1: "(if int m \<noteq> selectedTrackIndex (project e0) then clearIdleOutput m e0 else Inr e0) = Inr e1"
    and g2: "gateOutputStep ?idle m (e1, tgi) = Inr (e2, tgi')"
    and c3: "cvOutputStep ?idle m (e2, tci) = Inr (e3, tci')"
    by (auto simp: trackOutputStep_def Let_def elim!: bindE_InrE)
  have i1: "project e1 = project e" "gateOutputOverride e1 = gateOutputOverride e"
      "cvOutputOverride e1 = cvOutputOverride e"
    using c1 i0 by (auto split: if_splits dest: clearIdleOutput_Inr)
  have eng1: "trackEngines e1 = clearedEngines e (Suc m)"
  proof (cases "int m = ?sel")
    case True
    with c1 i0 show ?thesis
      by (simp add: clearedEngines_selected)
  next
    case False
    with c1 i0 have "clearIdleOutput m e0 = Inr e1" by simp
    from clearIdleOutput_engines [OF this] i0(2) False show ?thesis
      by (auto simp: clearedEngines_Suc)
  qed
  obtain tr1 where tr1: "trace e1 = trace e0 @ tr1"
      "idleSteps tr1 = (if int m \<noteq> ?sel then [Cleared m] else [])"
  proof (cases "int m = ?sel")
    case True
    with c1 i0 have "trace e1 = trace e0 @ []" by simp
    with True that show ?thesis by simp
  next
    case False
    with c1 i0 have "clearIdleOutput m e0 = Inr e1" by simp
    from clearIdleOutput_Inr(5) [OF this] False that show ?thesis by simp
  qed
  have i2: "project e2 = project e" "gateOutputOverride e2 = gateOutputOverride e"
      "cvOutputOverride e2 = cvOutputOverride e"
    using gateOutputStep_Inr [OF g2] i1 by simp_all
  have eng2: "trackEngines e2 = clearedEngines e (Suc m)"
    using gateOutputStep_idle(1) [OF g2] eng1 by simp
  obtain tr2 where tr2: "trace e2 = trace e1 @ tr2"
      "idleSteps tr2 = (if gateOutputOverride e then []
                        else [Drawn (idleAt e m (?g ! m)) (?g ! m), Written m])"
  proof -
    from gateOutputStep_idle(2) [OF g2] obtain tr where
      t: "trace e2 = trace e1 @ tr" "gateOutputOverride e1 \<longrightarrow> idleSteps tr = []"
        "\<not> gateOutputOverride e1 \<longrightarrow>
           (\<exists>te. gateOutputTracks (project e1) ! m < length (trackEngines e1)
              \<and> trackEngines e1 ! (gateOutputTracks (project e1) ! m) = Some te
              \<and> idleSteps tr = [Drawn (?idle \<and> idleOutput te) (gateOutputTracks (project e1) ! m),
                                Written m])"
      by blast
    have "idleSteps tr = (if gateOutputOverride e then []
                        else [Drawn (idleAt e m (?g ! m)) (?g ! m), Written m])"
      using t(2,3) i1 eng1 advertisesIdle_cleared [of "?g ! m" e m _ ?idle]
      by (auto simp: idleAt_def)
    with t(1) that show ?thesis by blast
  qed
  obtain tr3 where tr3: "trace e3 = trace e2 @ tr3"
      "idleSteps tr3 = (if cvOutputOverride e then []
                        else [Drawn (idleAt e m (?c ! m)) (?c ! m), Written m])"
  proof -
    from cvOutputStep_idle(2) [OF c3] obtain tr where
      t: "trace e3 = trace e2 @ tr" "cvOutputOverride e2 \<longrightarrow> idleSteps tr = []"
        "\<not> cvOutputOverride e2 \<longrightarrow>
           (\<exists>te. cvOutputTracks (project e2) ! m < length (trackEngines e2)
              \<and> trackEngines e2 ! (cvOutputTracks (project e2) ! m) = Some te
              \<and> idleSteps tr = [Drawn (?idle \<and> idleOutput te) (cvOutputTracks (project e2) ! m),
                                Written m])"
      by blast
    have "idleSteps tr = (if cvOutputOverride e then []
                        else [Drawn (idleAt e m (?c ! m)) (?c ! m), Written m])"
      using t(2,3) i2 eng2 advertisesIdle_cleared [of "?c ! m" e m _ ?idle]
      by (auto simp: idleAt_def)
    with t(1) that show ?thesis by blast
  qed
  have i3: "project e3 = project e" "gateOutputOverride e3 = gateOutputOverride e"
      "cvOutputOverride e3 = cvOutputOverride e"
    using cvOutputStep_Inr [OF c3] i2 by simp_all
  have eng3: "trackEngines e3 = clearedEngines e (Suc m)"
    using cvOutputStep_idle(1) [OF c3] eng2 by simp
  have "trace e3 = trace e @ (tr0 @ tr1 @ tr2 @ tr3)"
    "idleSteps (tr0 @ tr1 @ tr2 @ tr3) = concat (map (idlePassSteps e) [0..<Suc m])"
    using tr0 tr1 tr2 tr3 by (simp_all add: idlePassSteps_def)
  then have "\<exists>tr. trace e3 = trace e @ tr
               \<and> idleSteps tr = concat (map (idlePassSteps e) [0..<Suc m])"
    by blast
  with i3 eng3 show ?thesis
    unfolding idleInv_def st' by simp
qed

lemma idleInv_loop:
  assumes "foldE (trackOutputStep (isIdle (clock e))) [0..<m] (e, tgi, tci) = Inr st"
  shows "idleInv e m st"
  using assms
proof (induction m arbitrary: st)
  case 0
  then show ?case
    by (auto simp: idleInv_def clearedEngines_0)
next
  case (Suc m)
  from Suc.prems obtain st1 where
    1: "foldE (trackOutputStep (isIdle (clock e))) [0..<m] (e, tgi, tci) = Inr st1"
    and 2: "trackOutputStep (isIdle (clock e)) m st1 = Inr st"
    by (auto simp: foldE_append elim!: bindE_InrE split: sum.splits)
  from Suc.IH [OF 1] 2 show ?case
    by (rule idleInv_step)
qed

text \<open>
  C7, as the code has it. In a pass of \<open>updateTrackOutputs\<close> that returns, the idle output
  of every track other than the selected one is cleared at the start of the iteration of
  that track's own index: the steps of the pass are, for \<open>i = 0, 1, ...\<close> in this order,
  the clearing of track \<open>i\<close> (unless it is the selected track) and then, for each kind
  whose override is off, the draw from the source track of output \<open>i\<close> and the write of
  output \<open>i\<close>. The value drawn is the idle one exactly when the Clock is idle, the source
  advertised an idle output at entry, and the source is the selected track or has an
  index above \<open>i\<close>. So output \<open>i\<close> never gets the idle value of a track other than the
  selected one with an index up to \<open>i\<close>, and after the pass no track but the selected
  one advertises an idle output, while the selected track's engine is as it was.
\<close>

theorem updateTrackOutputs_idle_clearing:
  assumes "updateTrackOutputs e = Inr e'"
  shows "(\<exists>tr. trace e' = trace e @ tr
            \<and> idleSteps tr = concat (map (idlePassSteps e) [0..<CONFIG_TRACK_COUNT e]))
       \<and> (\<forall>i s. idleAt e i s \<and> int s \<noteq> selectedTrackIndex (project e) \<longrightarrow> i < s)
       \<and> trackEngines e' = clearedEngines e (CONFIG_TRACK_COUNT e)
       \<and> (\<forall>s<CONFIG_TRACK_COUNT e. int s \<noteq> selectedTrackIndex (project e)
              \<longrightarrow> \<not> advertisesIdle (trackEngines e' ! s))
       \<and> (\<forall>s<CONFIG_TRACK_COUNT e. int s = selectedTrackIndex (project e)
              \<longrightarrow> trackEngines e' ! s = trackEngines e ! s)"
proof -
  let ?n = "CONFIG_TRACK_COUNT e"
  from assms obtain st where
    run: "foldE (trackOutputStep (isIdle (clock e))) [0..<?n]
            (e, replicate ?n 0, replicate ?n 0) = Inr st"
    and e': "e' = fst st"
    by (auto simp: updateTrackOutputs_def Let_def elim!: bindE_InrE)
  have inv: "idleInv e ?n st"
    using run by (rule idleInv_loop)
  then have steps: "\<exists>tr. trace e' = trace e @ tr
            \<and> idleSteps tr = concat (map (idlePassSteps e) [0..<?n])"
    and eng: "trackEngines e' = clearedEngines e ?n"
    by (simp_all add: idleInv_def e')
  have only: "\<forall>i s. idleAt e i s \<and> int s \<noteq> selectedTrackIndex (project e) \<longrightarrow> i < s"
    by (auto simp: idleAt_def)
  have cleared: "\<not> advertisesIdle (trackEngines e' ! s)"
    if "s < ?n" "int s \<noteq> selectedTrackIndex (project e)" for s
    using that eng
    by (cases "trackEngines e ! s")
      (simp_all add: clearedEngines_nth CONFIG_TRACK_COUNT_def advertisesIdle_def)
  have kept: "trackEngines e' ! s = trackEngines e ! s"
    if "s < ?n" "int s = selectedTrackIndex (project e)" for s
    using that eng
    by (cases "trackEngines e ! s") (simp_all add: clearedEngines_nth CONFIG_TRACK_COUNT_def)
  from steps only eng cleared kept show ?thesis
    by blast
qed

theorem updateTrackOutputs_idle_clearing_witness:
  "\<exists>e'. updateTrackOutputs idleScenario = Inr e'
      \<and> idleSteps (trace e') = [Drawn True 1, Written 0, Drawn True 1, Written 0,
                                 Cleared 1, Drawn False 1, Written 1, Drawn False 1, Written 1]
      \<and> \<not> advertisesIdle (trackEngines e' ! 1)
      \<and> trackEngines e' ! 0 = trackEngines idleScenario ! 0"
proof -
  have "\<exists>e'. updateTrackOutputs idleScenario = Inr e'"
    by (simp add: idleScenario_def model_defs)
  then obtain e' where run: "updateTrackOutputs idleScenario = Inr e'" ..
  have s: "trace idleScenario = []" "CONFIG_TRACK_COUNT idleScenario = 2"
    "selectedTrackIndex (project idleScenario) = 0"
    "idlePassSteps idleScenario 0 = [Drawn True 1, Written 0, Drawn True 1, Written 0]"
    "idlePassSteps idleScenario 1 = [Cleared 1, Drawn False 1, Written 1, Drawn False 1, Written 1]"
    by (simp_all add: idleScenario_def idlePassSteps_def idleAt_def advertisesIdle_def model_defs)
  from updateTrackOutputs_idle_clearing [OF run] s
  have "idleSteps (trace e') = [Drawn True 1, Written 0, Drawn True 1, Written 0,
                                 Cleared 1, Drawn False 1, Written 1, Drawn False 1, Written 1]"
    by (auto simp: upt_rec)
  moreover from updateTrackOutputs_idle_clearing [OF run]
  have c: "\<forall>s<CONFIG_TRACK_COUNT idleScenario. int s \<noteq> selectedTrackIndex (project idleScenario)
              \<longrightarrow> \<not> advertisesIdle (trackEngines e' ! s)"
    and k: "\<forall>s<CONFIG_TRACK_COUNT idleScenario. int s = selectedTrackIndex (project idleScenario)
              \<longrightarrow> trackEngines e' ! s = trackEngines idleScenario ! s"
    by blast+
  from c [rule_format, of 1] k [rule_format, of 0] s(2,3)
  have "\<not> advertisesIdle (trackEngines e' ! 1)" "trackEngines e' ! 0 = trackEngines idleScenario ! 0"
    by simp_all
  ultimately show ?thesis
    using run by blast
qed

theorem updateTrackOutputs_idle_clearing_counterexample:
  "selectedTrackIndex (project idleScenario) = 0
   \<and> isIdle (clock idleScenario)
   \<and> map advertisesIdle (trackEngines idleScenario) = [False, True]
   \<and> (\<exists>e'. updateTrackOutputs idleScenario = Inr e'
         \<and> trace e' = [TrackEv 1 (IdleGateOutput 0), SetGate 0 False,
                        TrackEv 1 (IdleCvOutput 0), SetChannel 0 2,
                        TrackEv 1 ClearIdleOutput,
                        TrackEv 1 (GateOutput 1), SetGate 1 True,
                        TrackEv 1 (CvOutput 1), SetChannel 1 1]
         \<and> gates e' = [False, True] \<and> channels e' = [2, 1])"
  by (simp add: idleScenario_def advertisesIdle_def model_defs)

subsection \<open>Closed form of the request handling\<close>

lemma handleTrackRequests_eq:
  "handleTrackRequests mr pr i (e, b) =
     (setTrackStates ((trackStates (playState (project e)))
        [i := trackAfterRequests mr pr (trackStates (playState (project e)) ! i)]) e,
      b \<or> requests (trackStates (playState (project e)) ! i) \<inter> pr \<noteq> {})"
  by (simp add: handleTrackRequests_def modifyTrackState_def trackAfterRequests_def
      TrackState_hasRequests_def TrackState_clearRequests_def Let_def)

lemma setTrackStates_twice [simp]:
  "setTrackStates t2 (setTrackStates t1 e) = setTrackStates t2 e"
  "trackStates (playState (project (setTrackStates t1 e))) = t1"
  "songState (playState (project (setTrackStates t1 e))) = songState (playState (project e))"
  "song (project (setTrackStates t1 e)) = song (project e)"
  "trace (setTrackStates t1 e) = trace e"
  "trackEngines (setTrackStates t1 e) = trackEngines e"
  "CONFIG_TRACK_COUNT (setTrackStates t1 e) = CONFIG_TRACK_COUNT e"
  by (simp_all add: setTrackStates_def setPlayState_def CONFIG_TRACK_COUNT_def)

lemma foldl_handleTrackRequests:
  assumes "distinct xs"
  shows "foldl (\<lambda>acc i. handleTrackRequests mr pr i acc) (e, b) xs =
           (setTrackStates (requestedTrackStates mr pr xs (trackStates (playState (project e)))) e,
            b \<or> list_ex (\<lambda>i. requests (trackStates (playState (project e)) ! i) \<inter> pr \<noteq> {}) xs)"
  using assms
proof (induction xs arbitrary: e b)
  case Nil
  show ?case
    by (simp add: requestedTrackStates_def setTrackStates_def setPlayState_def)
next
  case (Cons x xs)
  let ?tss = "trackStates (playState (project e))"
  let ?t1 = "?tss[x := trackAfterRequests mr pr (?tss ! x)]"
  let ?e1 = "setTrackStates ?t1 e"
  let ?b1 = "b \<or> requests (?tss ! x) \<inter> pr \<noteq> {}"
  have same: "list_ex (\<lambda>i. requests (?t1 ! i) \<inter> pr \<noteq> {}) xs
                = list_ex (\<lambda>i. requests (?tss ! i) \<inter> pr \<noteq> {}) xs"
  proof -
    have "?t1 ! i = ?tss ! i" if "i \<in> set xs" for i
      using that Cons.prems by (cases "i = x") auto
    then show ?thesis
      by (simp add: list_ex_iff)
  qed
  have "foldl (\<lambda>acc i. handleTrackRequests mr pr i acc) (e, b) (x # xs)
          = foldl (\<lambda>acc i. handleTrackRequests mr pr i acc) (?e1, ?b1) xs"
    by (simp add: handleTrackRequests_eq)
  also have "\<dots> = (setTrackStates (requestedTrackStates mr pr xs
                        (trackStates (playState (project ?e1)))) ?e1,
                   ?b1 \<or> list_ex (\<lambda>i. requests (trackStates (playState (project ?e1)) ! i)
                                         \<inter> pr \<noteq> {}) xs)"
    by (rule Cons.IH) (use Cons.prems in simp)
  also have "\<dots> = (setTrackStates (requestedTrackStates mr pr (x # xs) ?tss) e,
            b \<or> list_ex (\<lambda>i. requests (?tss ! i) \<inter> pr \<noteq> {}) (x # xs))"
    using same by (auto simp: requestedTrackStates_def)
  finally show ?case .
qed

lemma requestedTrackStates_length [simp]:
  "length (requestedTrackStates mr pr xs tss) = length tss"
  unfolding requestedTrackStates_def by (induction xs arbitrary: tss) simp_all

lemma requestedTrackStates_nth:
  assumes "i < length tss" and "distinct xs"
  shows "requestedTrackStates mr pr xs tss ! i =
           (if i \<in> set xs then trackAfterRequests mr pr (tss ! i) else tss ! i)"
  using assms
proof (induction xs arbitrary: tss)
  case Nil
  show ?case by (simp add: requestedTrackStates_def)
next
  case (Cons x xs)
  let ?tss = "tss[x := trackAfterRequests mr pr (tss ! x)]"
  have "requestedTrackStates mr pr (x # xs) tss = requestedTrackStates mr pr xs ?tss"
    by (simp add: requestedTrackStates_def)
  moreover have "requestedTrackStates mr pr xs ?tss ! i =
      (if i \<in> set xs then trackAfterRequests mr pr (?tss ! i) else ?tss ! i)"
    by (rule Cons.IH) (use Cons.prems in simp_all)
  ultimately show ?case
    using Cons.prems by (cases "i = x") auto
qed

lemma handleMuteAndPatternRequests_eq:
  "handleMuteAndPatternRequests hs hl e =
     (setTrackStates (requestedTrackStates (muteRequests hs hl) (patternRequests hs hl)
                        [0..<CONFIG_TRACK_COUNT e] (trackStates (playState (project e)))) e,
      list_ex (\<lambda>i. requests (trackStates (playState (project e)) ! i) \<inter> patternRequests hs hl \<noteq> {})
        [0..<CONFIG_TRACK_COUNT e])"
  unfolding handleMuteAndPatternRequests_def
  by (simp add: foldl_handleTrackRequests)

lemma foldl_applySlotPatterns:
  "foldl (\<lambda>e' i. modifyTrackState i (\<lambda>ts. ts\<lparr>pattern := patterns slot ! i\<rparr>) e') e xs =
     setTrackStates (slotPatternStates slot xs (trackStates (playState (project e)))) e"
proof (induction xs arbitrary: e)
  case Nil
  show ?case
    by (simp add: slotPatternStates_def setTrackStates_def setPlayState_def)
next
  case (Cons x xs)
  let ?tss = "trackStates (playState (project e))"
  let ?e1 = "setTrackStates (?tss[x := (?tss ! x)\<lparr>pattern := patterns slot ! x\<rparr>]) e"
  have "foldl (\<lambda>e' i. modifyTrackState i (\<lambda>ts. ts\<lparr>pattern := patterns slot ! i\<rparr>) e') e (x # xs)
      = foldl (\<lambda>e' i. modifyTrackState i (\<lambda>ts. ts\<lparr>pattern := patterns slot ! i\<rparr>) e') ?e1 xs"
    by (simp add: modifyTrackState_def Let_def)
  also have "\<dots> = setTrackStates (slotPatternStates slot xs (trackStates (playState (project ?e1)))) ?e1"
    by (rule Cons.IH)
  also have "\<dots> = setTrackStates (slotPatternStates slot (x # xs) ?tss) e"
    by (simp add: slotPatternStates_def)
  finally show ?case .
qed

lemma applySlotPatterns_eq:
  "applySlotPatterns slot e =
     setTrackStates (slotPatternStates slot [0..<CONFIG_TRACK_COUNT e]
                       (trackStates (playState (project e)))) e"
  unfolding applySlotPatterns_def by (rule foldl_applySlotPatterns)

lemma setSongState_fields [simp]:
  "setSongState s2 (setSongState s1 e) = setSongState s2 e"
  "songState (playState (project (setSongState s1 e))) = s1"
  "trackStates (playState (project (setSongState s1 e))) = trackStates (playState (project e))"
  "song (project (setSongState s1 e)) = song (project e)"
  "trace (setSongState s1 e) = trace e"
  "trackEngines (setSongState s1 e) = trackEngines e"
  "CONFIG_TRACK_COUNT (setSongState s1 e) = CONFIG_TRACK_COUNT e"
  by (simp_all add: setSongState_def setPlayState_def CONFIG_TRACK_COUNT_def)

lemma clearPendingRequests_fields [simp]:
  "songState (playState (project (clearPendingRequests hs hl e))) = songState (playState (project e))"
  "trackStates (playState (project (clearPendingRequests hs hl e)))
     = trackStates (playState (project e))"
  "song (project (clearPendingRequests hs hl e)) = song (project e)"
  "trace (clearPendingRequests hs hl e) = trace e"
  "trackEngines (clearPendingRequests hs hl e) = trackEngines e"
  "CONFIG_TRACK_COUNT (clearPendingRequests hs hl e) = CONFIG_TRACK_COUNT e"
  by (simp_all add: clearPendingRequests_def setPlayState_def CONFIG_TRACK_COUNT_def Let_def)

lemma afterRequests_states:
  "songState (playState (project (afterRequests hs e)))
     = (if requestsHandled e then songStateAfterRequests hs e
        else songState (playState (project e)))"
  "trackStates (playState (project (afterRequests hs e)))
     = (if requestsHandled e then trackStatesAfterRequests hs e
        else trackStates (playState (project e)))"
  by (simp_all add: afterRequests_def)

lemma afterRequests_fields [simp]:
  "song (project (afterRequests hs e)) = song (project e)"
  "trace (afterRequests hs e) = trace e"
  "trackEngines (afterRequests hs e) = trackEngines e"
  "CONFIG_TRACK_COUNT (afterRequests hs e) = CONFIG_TRACK_COUNT e"
  by (simp_all add: afterRequests_def)

lemma handlePlayRequest_eq:
  assumes h: "requestsHandled e"
    and hl: "hl = executeLatchedRequests (playState (project e))"
    and e1: "e1 = setTrackStates (requestedTrackStates (muteRequests hs hl) (patternRequests hs hl)
                        [0..<CONFIG_TRACK_COUNT e] (trackStates (playState (project e)))) e"
  shows "handlePlayRequest (playRequests hs hl) sw e1 =
           (if playCarriedOut hs e then
              (if nat (requestedSlot (songState (playState (project e))))
                    < length (slots (song (project e)))
               then Inr (setSongState
                           ((songState (playState (project e)))
                              \<lparr>currentSlot := requestedSlot (songState (playState (project e))),
                               currentRepeat := 0, playing := True\<rparr>)
                           (setTrackStates (trackStatesAfterRequests hs e) e), False)
               else Inl OutOfRange)
            else Inr (e1, sw))"
proof (cases "playCarriedOut hs e")
  case False
  with h show ?thesis
    unfolding e1 hl
    by (auto simp: handlePlayRequest_def playCarriedOut_def SongState_hasRequests_def Let_def)
next
  case True
  then have fires: "SongState_hasRequests (songState (playState (project e))) (playRequests hs hl)"
    and valid: "0 \<le> requestedSlot (songState (playState (project e)))"
      "requestedSlot (songState (playState (project e))) < slotCount (song (project e))"
    by (simp_all add: playCarriedOut_def SongState_hasRequests_def hl)
  show ?thesis
  proof (cases "nat (requestedSlot (songState (playState (project e))))
                  < length (slots (song (project e)))")
    case False
    with True fires valid show ?thesis
      unfolding e1 by (simp add: handlePlayRequest_def Let_def Song_slot_def)
  next
    case inside: True
    then have slot: "Song_slot (song (project e)) (requestedSlot (songState (playState (project e))))
        = Inr (slots (song (project e)) ! nat (requestedSlot (songState (playState (project e)))))"
      using valid by (simp add: Song_slot_def)
    have ts: "applySlotPatterns
                (slots (song (project e)) ! nat (requestedSlot (songState (playState (project e))))) e1
              = setTrackStates (trackStatesAfterRequests hs e) e"
      unfolding e1 using True
      by (simp add: applySlotPatterns_eq trackStatesAfterRequests_def Let_def hl)
    have s1: "songState (playState (project e1)) = songState (playState (project e))"
      "song (project e1) = song (project e)"
      by (simp_all add: e1)
    show ?thesis
      using True fires valid inside
      by (simp add: handlePlayRequest_def Let_def s1 slot ts)
  qed
qed

lemma handleSongRequests_eq:
  assumes h: "requestsHandled e"
    and hl: "hl = executeLatchedRequests (playState (project e))"
    and inside: "playCarriedOut hs e \<longrightarrow>
                   nat (requestedSlot (songState (playState (project e))))
                     < length (slots (song (project e)))"
  shows "handleSongRequests hs hl (snd (handleMuteAndPatternRequests hs hl e)) sw
           (fst (handleMuteAndPatternRequests hs hl e))
         = Inr (setSongState (songStateAfterRequests hs e)
                  (setTrackStates (trackStatesAfterRequests hs e) e),
                sw \<and> \<not> playCarriedOut hs e)"
proof -
  let ?e1 = "setTrackStates (requestedTrackStates (muteRequests hs hl) (patternRequests hs hl)
                        [0..<CONFIG_TRACK_COUNT e] (trackStates (playState (project e)))) e"
  have fst: "fst (handleMuteAndPatternRequests hs hl e) = ?e1"
    and snd: "snd (handleMuteAndPatternRequests hs hl e) = patternRequestFires hs e"
    using h by (simp_all add: handleMuteAndPatternRequests_eq patternRequestFires_def hl)
  have stop: "SongState_hasRequests (songState (playState (project e))) (stopRequests hs hl)
                = stopRequestFires hs e"
    using h by (simp add: stopRequestFires_def SongState_hasRequests_def hl)
  show ?thesis
  proof (cases "playCarriedOut hs e")
    case True
    with inside have p: "handlePlayRequest (playRequests hs hl) sw ?e1 =
        Inr (setSongState
               ((songState (playState (project e)))
                  \<lparr>currentSlot := requestedSlot (songState (playState (project e))),
                   currentRepeat := 0, playing := True\<rparr>)
               (setTrackStates (trackStatesAfterRequests hs e) e), False)"
      using handlePlayRequest_eq [OF h hl refl, of hs sw] by simp
    show ?thesis
      unfolding fst snd handleSongRequests_def Let_def p
      using True
      by (simp add: songStateAfterRequests_def Let_def SongState_hasRequests_def
          stopRequestFires_def h hl)
  next
    case False
    then have p: "handlePlayRequest (playRequests hs hl) sw ?e1 = Inr (?e1, sw)"
      using handlePlayRequest_eq [OF h hl refl, of hs sw] by simp
    have t: "trackStatesAfterRequests hs e
               = requestedTrackStates (muteRequests hs hl) (patternRequests hs hl)
                        [0..<CONFIG_TRACK_COUNT e] (trackStates (playState (project e)))"
      using False by (simp add: trackStatesAfterRequests_def Let_def hl)
    show ?thesis
      unfolding fst snd handleSongRequests_def Let_def p
      using False
      by (simp add: songStateAfterRequests_def Let_def SongState_hasRequests_def
          stopRequestFires_def h hl t)
  qed
qed

lemma playing_afterRequests:
  "(playing (songState (playState (project (afterRequests hs e)))) \<and> sw \<and> \<not> playCarriedOut hs e)
     = slotChangeDue hs sw e"
  by (auto simp: slotChangeDue_def afterRequests_states songStateAfterRequests_def
      SongState_clearRequests_def Let_def
      playCarriedOut_def patternRequestFires_def stopRequestFires_def)

lemma updatePlayStateBody_eq:
  "updatePlayStateBody hs sw e =
     (if playCarriedOut hs e
         \<and> length (slots (song (project e)))
             \<le> nat (requestedSlot (songState (playState (project e))))
      then Inl OutOfRange
      else bindE (if slotChangeDue hs sw e then handleSongSlotChange (afterRequests hs e)
                  else Inr (afterRequests hs e)) (\<lambda>e4.
             if requestsHandled e \<or> sw then pushTrackStates e4 else Inr e4))"
proof (cases "requestsHandled e")
  case False
  then show ?thesis
    by (simp add: updatePlayStateBody_def requestsHandled_def Let_def slotChangeDue_def
        playCarriedOut_def patternRequestFires_def stopRequestFires_def afterRequests_def)
next
  case h: True
  let ?hl = "executeLatchedRequests (playState (project e))"
  have body: "updatePlayStateBody hs sw e =
      bindE (handleSongRequests hs ?hl (snd (handleMuteAndPatternRequests hs ?hl e)) sw
               (fst (handleMuteAndPatternRequests hs ?hl e))) (\<lambda>r2.
        bindE (if playing (songState (playState (project (clearPendingRequests hs ?hl (fst r2)))))
                  \<and> snd r2
               then handleSongSlotChange (clearPendingRequests hs ?hl (fst r2))
               else Inr (clearPendingRequests hs ?hl (fst r2))) pushTrackStates)"
  proof -
    have hh: "(hasImmediateRequests (playState (project e)) \<or> hasSyncedRequests (playState (project e))
               \<or> executeLatchedRequests (playState (project e))) = True"
      using h by (simp add: requestsHandled_def)
    show ?thesis
      unfolding updatePlayStateBody_def Let_def hh by (simp cong: if_cong)
  qed
  show ?thesis
  proof (cases "playCarriedOut hs e
         \<and> length (slots (song (project e)))
             \<le> nat (requestedSlot (songState (playState (project e))))")
    case True
    then have "handlePlayRequest (playRequests hs ?hl) sw
                 (fst (handleMuteAndPatternRequests hs ?hl e)) = Inl OutOfRange"
      using handlePlayRequest_eq [OF h refl refl, of hs sw]
      by (simp add: handleMuteAndPatternRequests_eq)
    then show ?thesis
      using True unfolding body handleSongRequests_def Let_def by simp
  next
    case False
    then have inside: "playCarriedOut hs e \<longrightarrow>
                   nat (requestedSlot (songState (playState (project e))))
                     < length (slots (song (project e)))"
      by auto
    have a: "clearPendingRequests hs ?hl
               (setSongState (songStateAfterRequests hs e)
                  (setTrackStates (trackStatesAfterRequests hs e) e)) = afterRequests hs e"
      using h by (simp add: afterRequests_def)
    have "updatePlayStateBody hs sw e =
        bindE (if playing (songState (playState (project
                    (clearPendingRequests hs ?hl
                       (setSongState (songStateAfterRequests hs e)
                          (setTrackStates (trackStatesAfterRequests hs e) e))))))
                  \<and> sw \<and> \<not> playCarriedOut hs e
               then handleSongSlotChange
                      (clearPendingRequests hs ?hl
                         (setSongState (songStateAfterRequests hs e)
                            (setTrackStates (trackStatesAfterRequests hs e) e)))
               else Inr (clearPendingRequests hs ?hl
                           (setSongState (songStateAfterRequests hs e)
                              (setTrackStates (trackStatesAfterRequests hs e) e))))
          pushTrackStates"
      unfolding body handleSongRequests_eq [OF h refl inside]
      by (simp only: bindE_simps fst_conv snd_conv)
    also have "\<dots> = bindE (if slotChangeDue hs sw e then handleSongSlotChange (afterRequests hs e)
                            else Inr (afterRequests hs e)) pushTrackStates"
      unfolding a playing_afterRequests ..
    finally show ?thesis
      using False h by auto
  qed
qed

subsection \<open>Closed form of a call of the arbitration\<close>

lemma Song_slot_Inr:
  "Song_slot sg i = Inr s \<longleftrightarrow> 0 \<le> i \<and> i < int (length (slots sg)) \<and> s = slots sg ! nat i"
  by (auto simp: Song_slot_def)

lemma handleSongSlotChange_valid:
  assumes "allEnginesPresent e"
    and "0 \<le> currentSlot (songState (playState (project e)))"
    and "currentSlot (songState (playState (project e))) < int (length (slots (song (project e))))"
    and "0 \<le> currentSlot (nextSongState (song (project e))
                  (slots (song (project e)) ! nat (currentSlot (songState (playState (project e)))))
                  (songState (playState (project e))))"
    and "currentSlot (nextSongState (song (project e))
                  (slots (song (project e)) ! nat (currentSlot (songState (playState (project e)))))
                  (songState (playState (project e))))
           < int (length (slots (song (project e))))"
  shows "handleSongSlotChange e = Inr (slotChanged e)"
proof -
  have "handleSongSlotChange e =
           Inr (emitAll (map (\<lambda>i. TrackEv i ResetEngine) [0..<CONFIG_TRACK_COUNT e])
                  (setTrackStates
                     (slotPatternStates
                        (slots (song (project e)) ! nat (currentSlot (nextSongState (song (project e))
                           (slots (song (project e))
                              ! nat (currentSlot (songState (playState (project e)))))
                           (songState (playState (project e))))))
                        [0..<CONFIG_TRACK_COUNT e]
                        (trackStates (playState (project e))))
                     (setSongState (nextSongState (song (project e))
                        (slots (song (project e))
                           ! nat (currentSlot (songState (playState (project e)))))
                                      (songState (playState (project e)))) e)))"
    by (rule handleSongSlotChange_present [OF assms(1)]) (use assms in \<open>simp_all add: Song_slot_Inr\<close>)
  then show ?thesis
    by (simp add: slotChanged_def Let_def)
qed

lemma handleSongSlotChange_Inr:
  assumes run: "handleSongSlotChange e = Inr e'" and present: "allEnginesPresent e"
  shows "e' = slotChanged e"
proof -
  from run obtain slot slot' where
    s: "Song_slot (song (project e)) (currentSlot (songState (playState (project e)))) = Inr slot"
    and s': "Song_slot (song (project e))
               (currentSlot (nextSongState (song (project e)) slot
                  (songState (playState (project e))))) = Inr slot'"
    by (auto simp: handleSongSlotChange_def Let_def elim!: bindE_InrE)
  from s have slot: "slot = slots (song (project e))
                              ! nat (currentSlot (songState (playState (project e))))"
    by (simp add: Song_slot_Inr)
  have "handleSongSlotChange e = Inr (slotChanged e)"
    by (rule handleSongSlotChange_valid [OF present])
      (use s s' in \<open>simp_all add: Song_slot_Inr slot\<close>)
  with run show ?thesis
    by simp
qed

lemma handleSongSlotChange_trackEngines:
  assumes "handleSongSlotChange e = Inr e'"
  shows "trackEngines e' = trackEngines e"
proof -
  from assms obtain slot slot' where
    run: "foldE (updatePatternStep slot')
            [0..<CONFIG_TRACK_COUNT (setSongState (nextSongState (song (project e)) slot
                 (songState (playState (project e)))) e)]
            (setSongState (nextSongState (song (project e)) slot
                 (songState (playState (project e)))) e) = Inr e'"
    by (auto simp: handleSongSlotChange_def Let_def elim!: bindE_InrE)
  have step: "trackEngines s' = trackEngines s"
    if "updatePatternStep slot' x s = Inr s'" for x s s'
    using that
    by (auto simp: updatePatternStep_def callTrackEngine_Inr modifyTrackState_def Let_def)
  have "trackEngines e' = trackEngines (setSongState (nextSongState (song (project e)) slot
                 (songState (playState (project e)))) e)"
    using run by (rule foldE_preserves [where g = trackEngines, rotated]) (rule step)
  then show ?thesis
    by simp
qed

lemma foldE_pushTrackState_Inr:
  assumes "foldE pushTrackState xs e = Inr e'"
  shows "\<forall>i\<in>set xs. i < length (trackEngines e) \<and> trackEngines e ! i \<noteq> None"
  using assms
proof (induction xs arbitrary: e)
  case Nil
  show ?case by simp
next
  case (Cons x xs)
  then obtain e1 where e1: "pushTrackState x e = Inr e1" and rest: "foldE pushTrackState xs e1 = Inr e'"
    by (auto split: sum.splits)
  from e1 have x: "x < length (trackEngines e) \<and> trackEngines e ! x \<noteq> None"
    and same: "trackEngines e1 = trackEngines e"
    by (auto simp: pushTrackState_def Let_def callTrackEngine_Inr elim!: bindE_InrE)
  from Cons.IH [OF rest] same x show ?case
    by simp
qed

lemma pushTrackStates_Inr:
  assumes "pushTrackStates e = Inr e'"
  shows "allEnginesPresent e" and "e' = handedOver e"
proof -
  from assms have p: "\<forall>i\<in>set [0..<CONFIG_TRACK_COUNT e].
                        i < length (trackEngines e) \<and> trackEngines e ! i \<noteq> None"
    unfolding pushTrackStates_def by (rule foldE_pushTrackState_Inr)
  then show "allEnginesPresent e"
    by (simp add: allEnginesPresent_def list_all_length CONFIG_TRACK_COUNT_def)
  from foldE_pushTrackState [OF p] assms show "e' = handedOver e"
    by (simp add: pushTrackStates_def handedOver_def)
qed

lemma pushTrackStates_present:
  assumes "allEnginesPresent e"
  shows "pushTrackStates e = Inr (handedOver e)"
proof -
  from assms have p: "\<forall>i\<in>set [0..<CONFIG_TRACK_COUNT e].
                        i < length (trackEngines e) \<and> trackEngines e ! i \<noteq> None"
    by (simp add: allEnginesPresent_def list_all_length CONFIG_TRACK_COUNT_def)
  from foldE_pushTrackState [OF p] show ?thesis
    by (simp add: pushTrackStates_def handedOver_def)
qed

lemma allEnginesPresent_cong:
  "trackEngines e' = trackEngines e \<Longrightarrow> allEnginesPresent e' = allEnginesPresent e"
  by (simp add: allEnginesPresent_def)

lemma updatePlayStateBody_Inr:
  assumes run: "updatePlayStateBody hs sw e = Inr e'"
  shows "e' = arbitrated hs sw e"
proof -
  from run obtain e4 where
    e4: "(if slotChangeDue hs sw e then handleSongSlotChange (afterRequests hs e)
          else Inr (afterRequests hs e)) = Inr e4"
    and e': "(if requestsHandled e \<or> sw then pushTrackStates e4 else Inr e4) = Inr e'"
    unfolding updatePlayStateBody_eq by (auto split: if_splits elim!: bindE_InrE)
  show ?thesis
  proof (cases "slotChangeDue hs sw e")
    case True
    then have sw: sw
      by (simp add: slotChangeDue_def)
    from e4 True have c: "handleSongSlotChange (afterRequests hs e) = Inr e4"
      by simp
    from e' sw have p: "pushTrackStates e4 = Inr e'"
      by simp
    have "allEnginesPresent e4"
      using p by (rule pushTrackStates_Inr)
    then have "allEnginesPresent (afterRequests hs e)"
      using handleSongSlotChange_trackEngines [OF c] by (simp add: allEnginesPresent_def)
    with c have "e4 = slotChanged (afterRequests hs e)"
      by (rule handleSongSlotChange_Inr)
    moreover have "e' = handedOver e4"
      using p by (rule pushTrackStates_Inr)
    ultimately show ?thesis
      using True sw by (simp add: arbitrated_def Let_def)
  next
    case False
    with e4 have a: "e4 = afterRequests hs e"
      by simp
    show ?thesis
    proof (cases "requestsHandled e \<or> sw")
      case True
      with e' have "pushTrackStates e4 = Inr e'"
        by simp
      then have "e' = handedOver e4"
        by (rule pushTrackStates_Inr)
      with a False True show ?thesis
        by (simp add: arbitrated_def Let_def)
    next
      case n: False
      with e' a False show ?thesis
        by (simp add: arbitrated_def Let_def)
    qed
  qed
qed

lemma updatePlayStateBody_present:
  assumes present: "allEnginesPresent e"
    and play: "playCarriedOut hs e \<longrightarrow>
                 nat (requestedSlot (songState (playState (project e))))
                   < length (slots (song (project e)))"
    and cur: "slotChangeDue hs sw e \<longrightarrow>
                0 \<le> currentSlot (songState (playState (project e)))
                \<and> currentSlot (songState (playState (project e)))
                     < int (length (slots (song (project e))))"
    and nxt: "slotChangeDue hs sw e \<longrightarrow>
                0 \<le> currentSlot (nextSongState (song (project e))
                  (slots (song (project e)) ! nat (currentSlot (songState (playState (project e)))))
                  (songState (playState (project e))))
                \<and> currentSlot (nextSongState (song (project e))
                  (slots (song (project e)) ! nat (currentSlot (songState (playState (project e)))))
                  (songState (playState (project e))))
                     < int (length (slots (song (project e))))"
  shows "updatePlayStateBody hs sw e = Inr (arbitrated hs sw e)"
proof -
  let ?a = "afterRequests hs e"
  have pa: "allEnginesPresent ?a"
    using present by (simp add: allEnginesPresent_def)
  show ?thesis
  proof (cases "slotChangeDue hs sw e")
    case True
    then have sw: sw and quiet: "\<not> playCarriedOut hs e" "\<not> patternRequestFires hs e"
      "\<not> stopRequestFires hs e"
      by (simp_all add: slotChangeDue_def)
    have ss: "currentSlot (songState (playState (project ?a)))
                = currentSlot (songState (playState (project e)))"
      "\<And>slot. currentSlot (nextSongState (song (project e)) slot (songState (playState (project ?a))))
         = currentSlot (nextSongState (song (project e)) slot (songState (playState (project e))))"
      using quiet
      by (simp_all add: afterRequests_states songStateAfterRequests_def
          SongState_clearRequests_def Let_def nextSongState_def)
    have c: "handleSongSlotChange ?a = Inr (slotChanged ?a)"
      by (rule handleSongSlotChange_valid [OF pa]) (use True cur nxt in \<open>simp_all add: ss\<close>)
    have "allEnginesPresent (slotChanged ?a)"
      using pa by (simp add: allEnginesPresent_def slotChanged_def Let_def)
    then have p: "pushTrackStates (slotChanged ?a) = Inr (handedOver (slotChanged ?a))"
      by (rule pushTrackStates_present)
    show ?thesis
      unfolding updatePlayStateBody_eq using True sw quiet c p
      by (simp add: arbitrated_def Let_def)
  next
    case False
    have p: "pushTrackStates ?a = Inr (handedOver ?a)"
      using pa by (rule pushTrackStates_present)
    show ?thesis
      unfolding updatePlayStateBody_eq using False play p
      by (auto simp: arbitrated_def Let_def)
  qed
qed

lemma slotPatternStates_settings:
  assumes "i < length tss"
  shows "mute (slotPatternStates slot xs tss ! i) = mute (tss ! i)"
    and "requests (slotPatternStates slot xs tss ! i) = requests (tss ! i)"
    and "pattern (slotPatternStates slot xs tss ! i)
           = (if i \<in> set xs then patterns slot ! i else pattern (tss ! i))"
  using assms by (simp_all add: slotPatternStates_nth)

lemma trackStatesAfterRequests_length [simp]:
  "length (trackStatesAfterRequests hs e) = length (trackStates (playState (project e)))"
  by (simp add: trackStatesAfterRequests_def Let_def)

lemma trackStatesAfterRequests_nth:
  assumes i: "i < CONFIG_TRACK_COUNT e"
    and len: "CONFIG_TRACK_COUNT e \<le> length (trackStates (playState (project e)))"
    and hl: "hl = executeLatchedRequests (playState (project e))"
    and ts: "ts = trackStates (playState (project e)) ! i"
  shows "mute (trackStatesAfterRequests hs e ! i)
           = (if requests ts \<inter> muteRequests hs hl \<noteq> {} then requestedMute ts else mute ts)"
    and "requests (trackStatesAfterRequests hs e ! i)
           = requests ts - (muteRequests hs hl \<union> patternRequests hs hl)"
    and "pattern (trackStatesAfterRequests hs e ! i)
           = (if playCarriedOut hs e
              then patterns (slots (song (project e))
                     ! nat (requestedSlot (songState (playState (project e))))) ! i
              else if requests ts \<inter> patternRequests hs hl \<noteq> {} then requestedPattern ts
              else pattern ts)"
proof -
  let ?tss1 = "requestedTrackStates (muteRequests hs hl) (patternRequests hs hl)
                 [0..<CONFIG_TRACK_COUNT e] (trackStates (playState (project e)))"
  have i': "i < length (trackStates (playState (project e)))"
    using i len by simp
  have n: "?tss1 ! i = trackAfterRequests (muteRequests hs hl) (patternRequests hs hl) ts"
    using i i' by (simp add: requestedTrackStates_nth ts)
  have l1: "i < length ?tss1"
    using i' by simp
  show "mute (trackStatesAfterRequests hs e ! i)
           = (if requests ts \<inter> muteRequests hs hl \<noteq> {} then requestedMute ts else mute ts)"
    unfolding trackStatesAfterRequests_def Let_def hl [symmetric]
    using slotPatternStates_settings(1) [OF l1] n by (simp add: trackAfterRequests_def)
  show "requests (trackStatesAfterRequests hs e ! i)
           = requests ts - (muteRequests hs hl \<union> patternRequests hs hl)"
    unfolding trackStatesAfterRequests_def Let_def hl [symmetric]
    using slotPatternStates_settings(2) [OF l1] n by (simp add: trackAfterRequests_def)
  show "pattern (trackStatesAfterRequests hs e ! i)
           = (if playCarriedOut hs e
              then patterns (slots (song (project e))
                     ! nat (requestedSlot (songState (playState (project e))))) ! i
              else if requests ts \<inter> patternRequests hs hl \<noteq> {} then requestedPattern ts
              else pattern ts)"
    unfolding trackStatesAfterRequests_def Let_def hl [symmetric]
    using slotPatternStates_settings(3) [OF l1] n i by (simp add: trackAfterRequests_def)
qed

lemma handedOver_fields [simp]:
  "project (handedOver e) = project e"
  "trackEngines (handedOver e) = trackEngines e"
  "trace (handedOver e) = trace e @ concat (map (pushEvents e) [0..<CONFIG_TRACK_COUNT e])"
  by (simp_all add: handedOver_def)

lemma pushEvents_cong: "project e' = project e \<Longrightarrow> pushEvents e' = pushEvents e"
  by (simp add: pushEvents_def fun_eq_iff)

lemma slotChanged_fields:
  "songState (playState (project (slotChanged e)))
     = nextSongState (song (project e))
         (slots (song (project e)) ! nat (currentSlot (songState (playState (project e)))))
         (songState (playState (project e)))"
  "trackStates (playState (project (slotChanged e)))
     = slotPatternStates
         (slots (song (project e))
            ! nat (currentSlot (nextSongState (song (project e))
                 (slots (song (project e)) ! nat (currentSlot (songState (playState (project e)))))
                 (songState (playState (project e))))))
         [0..<CONFIG_TRACK_COUNT e] (trackStates (playState (project e)))"
  "trace (slotChanged e) = trace e @ map (\<lambda>i. TrackEv i ResetEngine) [0..<CONFIG_TRACK_COUNT e]"
  "trackEngines (slotChanged e) = trackEngines e"
  "CONFIG_TRACK_COUNT (slotChanged e) = CONFIG_TRACK_COUNT e"
  "song (project (slotChanged e)) = song (project e)"
  by (simp_all add: slotChanged_def Let_def)

text \<open>The state a call leaves when the slot change is not due.\<close>

lemma arbitrated_not_due:
  assumes "\<not> slotChangeDue hs sw e"
  shows "project (arbitrated hs sw e) = project (afterRequests hs e)"
    and "trackEngines (arbitrated hs sw e) = trackEngines e"
    and "trace (arbitrated hs sw e)
           = trace e @ (if requestsHandled e \<or> sw
                        then concat (map (pushEvents (arbitrated hs sw e))
                                       [0..<CONFIG_TRACK_COUNT e])
                        else [])"
proof -
  show p: "project (arbitrated hs sw e) = project (afterRequests hs e)"
    using assms by (simp add: arbitrated_def Let_def)
  show "trackEngines (arbitrated hs sw e) = trackEngines e"
    using assms by (simp add: arbitrated_def Let_def)
  show "trace (arbitrated hs sw e)
           = trace e @ (if requestsHandled e \<or> sw
                        then concat (map (pushEvents (arbitrated hs sw e))
                                       [0..<CONFIG_TRACK_COUNT e])
                        else [])"
    unfolding pushEvents_cong [OF p]
    using assms by (simp add: arbitrated_def Let_def)
qed

text \<open>The state a call leaves when the slot change is due.\<close>

lemma arbitrated_due:
  assumes "slotChangeDue hs sw e"
  shows "project (arbitrated hs sw e) = project (slotChanged (afterRequests hs e))"
    and "trackEngines (arbitrated hs sw e) = trackEngines e"
    and "trace (arbitrated hs sw e)
           = trace e @ map (\<lambda>i. TrackEv i ResetEngine) [0..<CONFIG_TRACK_COUNT e]
               @ concat (map (pushEvents (arbitrated hs sw e)) [0..<CONFIG_TRACK_COUNT e])"
proof -
  have sw: sw
    using assms by (simp add: slotChangeDue_def)
  show p: "project (arbitrated hs sw e) = project (slotChanged (afterRequests hs e))"
    using assms sw by (simp add: arbitrated_def Let_def)
  show "trackEngines (arbitrated hs sw e) = trackEngines e"
    using assms sw by (simp add: arbitrated_def Let_def slotChanged_fields)
  show "trace (arbitrated hs sw e)
           = trace e @ map (\<lambda>i. TrackEv i ResetEngine) [0..<CONFIG_TRACK_COUNT e]
               @ concat (map (pushEvents (arbitrated hs sw e)) [0..<CONFIG_TRACK_COUNT e])"
    unfolding pushEvents_cong [OF p]
    using assms sw by (simp add: arbitrated_def Let_def slotChanged_fields)
qed

lemma slotChangeDue_quiet:
  assumes "slotChangeDue hs sw e"
  shows "songState (playState (project (afterRequests hs e)))
           = (if requestsHandled e
              then SongState_clearRequests
                     (playRequests hs (executeLatchedRequests (playState (project e)))
                        \<union> stopRequests hs (executeLatchedRequests (playState (project e))))
                     (songState (playState (project e)))
              else songState (playState (project e)))"
    and "trackStates (playState (project (afterRequests hs e)))
           = (if requestsHandled e
              then requestedTrackStates
                     (muteRequests hs (executeLatchedRequests (playState (project e))))
                     (patternRequests hs (executeLatchedRequests (playState (project e))))
                     [0..<CONFIG_TRACK_COUNT e] (trackStates (playState (project e)))
              else trackStates (playState (project e)))"
  using assms
  by (simp_all add: slotChangeDue_def afterRequests_states songStateAfterRequests_def
      trackStatesAfterRequests_def Let_def)

lemma nextSongState_cleared:
  assumes "ssa = (if h then SongState_clearRequests m ss else ss)"
  shows "currentSlot ssa = currentSlot ss" and "currentRepeat ssa = currentRepeat ss"
    and "playing ssa = playing ss"
    and "currentSlot (nextSongState sg slot ssa) = currentSlot (nextSongState sg slot ss)"
    and "currentRepeat (nextSongState sg slot ssa) = currentRepeat (nextSongState sg slot ss)"
    and "playing (nextSongState sg slot ssa) = playing ss"
    and "songRequests (nextSongState sg slot ssa) = songRequests ssa"
  using assms by (simp_all add: SongState_clearRequests_def nextSongState_def)

lemma arbitrated_settings:
  assumes i: "i < CONFIG_TRACK_COUNT e"
    and len: "CONFIG_TRACK_COUNT e \<le> length (trackStates (playState (project e)))"
    and hl: "hl = executeLatchedRequests (playState (project e))"
    and ts: "ts = trackStates (playState (project e)) ! i"
  shows "mute (trackStates (playState (project (arbitrated hs sw e))) ! i)
           = (if requestsHandled e \<and> requests ts \<inter> muteRequests hs hl \<noteq> {}
              then requestedMute ts else mute ts)"
    and "requests (trackStates (playState (project (arbitrated hs sw e))) ! i)
           = (if requestsHandled e
              then requests ts - (muteRequests hs hl \<union> patternRequests hs hl)
              else requests ts)"
proof -
  let ?a = "afterRequests hs e"
  let ?tsa = "trackStates (playState (project ?a))"
  have la: "i < length ?tsa"
    using i len by (simp add: afterRequests_states)
  have a: "mute (?tsa ! i) = (if requestsHandled e \<and> requests ts \<inter> muteRequests hs hl \<noteq> {}
              then requestedMute ts else mute ts)"
    "requests (?tsa ! i) = (if requestsHandled e
              then requests ts - (muteRequests hs hl \<union> patternRequests hs hl)
              else requests ts)"
    using trackStatesAfterRequests_nth(1,2) [OF i len hl ts, of hs]
    by (simp_all add: afterRequests_states ts)
  have "mute (trackStates (playState (project (arbitrated hs sw e))) ! i) = mute (?tsa ! i)
      \<and> requests (trackStates (playState (project (arbitrated hs sw e))) ! i) = requests (?tsa ! i)"
  proof (cases "slotChangeDue hs sw e")
    case True
    show ?thesis
      unfolding arbitrated_due(1) [OF True] slotChanged_fields
      using slotPatternStates_settings(1,2) [OF la] by simp
  next
    case False
    show ?thesis
      unfolding arbitrated_not_due(1) [OF False] by simp
  qed
  with a show "mute (trackStates (playState (project (arbitrated hs sw e))) ! i)
           = (if requestsHandled e \<and> requests ts \<inter> muteRequests hs hl \<noteq> {}
              then requestedMute ts else mute ts)"
    and "requests (trackStates (playState (project (arbitrated hs sw e))) ! i)
           = (if requestsHandled e
              then requests ts - (muteRequests hs hl \<union> patternRequests hs hl)
              else requests ts)"
    by simp_all
qed

lemma arbitrated_pattern:
  assumes i: "i < CONFIG_TRACK_COUNT e"
    and len: "CONFIG_TRACK_COUNT e \<le> length (trackStates (playState (project e)))"
    and hl: "hl = executeLatchedRequests (playState (project e))"
    and ts: "ts = trackStates (playState (project e)) ! i"
    and nd: "\<not> slotChangeDue hs sw e"
  shows "pattern (trackStates (playState (project (arbitrated hs sw e))) ! i)
           = (if playCarriedOut hs e
              then patterns (slots (song (project e))
                     ! nat (requestedSlot (songState (playState (project e))))) ! i
              else if requestsHandled e \<and> requests ts \<inter> patternRequests hs hl \<noteq> {}
              then requestedPattern ts else pattern ts)"
  unfolding arbitrated_not_due(1) [OF nd]
  using trackStatesAfterRequests_nth(3) [OF i len hl ts, of hs]
  by (auto simp: afterRequests_states ts playCarriedOut_def)

lemma arbitrated_song:
  assumes hl: "hl = executeLatchedRequests (playState (project e))"
    and ss: "ss = songState (playState (project e))"
  shows "songRequests (songState (playState (project (arbitrated hs sw e))))
           = (if requestsHandled e
              then songRequests ss - (playRequests hs hl \<union> stopRequests hs hl)
              else songRequests ss)"
    and "playing (songState (playState (project (arbitrated hs sw e))))
           = ((playing ss \<or> playCarriedOut hs e)
              \<and> \<not> patternRequestFires hs e \<and> \<not> stopRequestFires hs e)"
    and "\<not> slotChangeDue hs sw e \<Longrightarrow>
         songPosition (arbitrated hs sw e)
           = (if playCarriedOut hs e then (requestedSlot ss, 0) else songPosition e)"
proof -
  let ?a = "afterRequests hs e"
  let ?ssa = "songState (playState (project ?a))"
  have a: "songRequests ?ssa = (if requestsHandled e
              then songRequests ss - (playRequests hs hl \<union> stopRequests hs hl)
              else songRequests ss)"
    "playing ?ssa = ((playing ss \<or> playCarriedOut hs e)
              \<and> \<not> patternRequestFires hs e \<and> \<not> stopRequestFires hs e)"
    "(currentSlot ?ssa, currentRepeat ?ssa)
       = (if playCarriedOut hs e then (requestedSlot ss, 0) else songPosition e)"
    by (auto simp: afterRequests_states songStateAfterRequests_def SongState_clearRequests_def
        Let_def hl ss songPosition_def playCarriedOut_def patternRequestFires_def
        stopRequestFires_def)
  show "\<not> slotChangeDue hs sw e \<Longrightarrow>
         songPosition (arbitrated hs sw e)
           = (if playCarriedOut hs e then (requestedSlot ss, 0) else songPosition e)"
    using a(3) by (simp add: arbitrated_not_due(1) songPosition_def)
  have "songRequests (songState (playState (project (arbitrated hs sw e)))) = songRequests ?ssa
      \<and> playing (songState (playState (project (arbitrated hs sw e)))) = playing ?ssa"
  proof (cases "slotChangeDue hs sw e")
    case True
    show ?thesis
      unfolding arbitrated_due(1) [OF True] slotChanged_fields
      by (simp add: nextSongState_def)
  next
    case False
    show ?thesis
      unfolding arbitrated_not_due(1) [OF False] by simp
  qed
  with a(1,2) show "songRequests (songState (playState (project (arbitrated hs sw e))))
           = (if requestsHandled e
              then songRequests ss - (playRequests hs hl \<union> stopRequests hs hl)
              else songRequests ss)"
    and "playing (songState (playState (project (arbitrated hs sw e))))
           = ((playing ss \<or> playCarriedOut hs e)
              \<and> \<not> patternRequestFires hs e \<and> \<not> stopRequestFires hs e)"
    by simp_all
qed

lemma arbitrated_trace:
  "trace (arbitrated hs sw e)
     = trace e
       @ (if slotChangeDue hs sw e
          then map (\<lambda>i. TrackEv i ResetEngine) [0..<CONFIG_TRACK_COUNT e] else [])
       @ (if requestsHandled e \<or> sw
          then concat (map (pushEvents (arbitrated hs sw e)) [0..<CONFIG_TRACK_COUNT e])
          else [])"
proof (cases "slotChangeDue hs sw e")
  case True
  then have sw
    by (simp add: slotChangeDue_def)
  with True show ?thesis
    by (simp add: arbitrated_due(3))
next
  case False
  then show ?thesis
    by (simp add: arbitrated_not_due(3))
qed

lemma pushEvents_no_reset: "TrackEv j ResetEngine \<notin> set (concat (map (pushEvents e) xs))"
  by (auto simp: pushEvents_def Let_def)

lemmas arbitration_defs = handleMuteAndPatternRequests_def handleTrackRequests_def
  handleSongRequests_def handlePlayRequest_def applySlotPatterns_def clearPendingRequests_def
  TrackState_hasRequests_def TrackState_clearRequests_def SongState_hasRequests_def
  SongState_clearRequests_def muteRequests_def patternRequests_def playRequests_def
  stopRequests_def

lemma all_less_two: "(\<forall>i<(2::nat). P i) \<longleftrightarrow> P 0 \<and> P 1"
  by (auto simp: less_2_cases_iff)

subsection \<open>Song slot advance\<close>

lemma updatePlayState_slot_change:
  assumes M: "M = syncMeasure (project e) * CONFIG_PPQN e * 4" and pos: "0 < M" and fits: "M < 2 ^ 32"
    and last: "unat (tick e) mod M = M - 1"
    and present: "allEnginesPresent e"
    and len: "CONFIG_TRACK_COUNT e \<le> length (trackStates (playState (project e)))"
    and play: "playing (songState (playState (project e)))"
    and quiet: "\<not> playCarriedOut True e" "\<not> patternRequestFires True e"
      "\<not> stopRequestFires True e"
    and slot: "Song_slot (song (project e)) (currentSlot (songState (playState (project e)))) = Inr slot"
    and slot': "Song_slot (song (project e))
                  (currentSlot (nextSongState (song (project e)) slot
                                  (songState (playState (project e))))) = Inr slot'"
    and hl: "hl = executeLatchedRequests (playState (project e))"
  shows "\<exists>e'. updatePlayState True e = Inr e'
            \<and> songPosition e' =
                (if currentRepeat (songState (playState (project e))) + 1 < repeats slot
                 then (currentSlot (songState (playState (project e))),
                       currentRepeat (songState (playState (project e))) + 1)
                 else (if currentSlot (songState (playState (project e))) + 1
                            < slotCount (song (project e))
                       then currentSlot (songState (playState (project e))) + 1 else 0, 0))
            \<and> (\<forall>i < CONFIG_TRACK_COUNT e. trackPatterns e' ! i = patterns slot' ! i)
            \<and> trace e' = trace e @ map (\<lambda>i. TrackEv i ResetEngine) [0..<CONFIG_TRACK_COUNT e]
                            @ concat (map (pushEvents e') [0..<CONFIG_TRACK_COUNT e])
            \<and> trackEngines e' = trackEngines e
            \<and> playing (songState (playState (project e')))
            \<and> (\<forall>i < CONFIG_TRACK_COUNT e.
                  mute (trackStates (playState (project e')) ! i)
                    = (if requestsHandled e
                          \<and> requests (trackStates (playState (project e)) ! i)
                              \<inter> muteRequests True hl \<noteq> {}
                       then requestedMute (trackStates (playState (project e)) ! i)
                       else mute (trackStates (playState (project e)) ! i))
                \<and> requests (trackStates (playState (project e')) ! i)
                    = (if requestsHandled e
                       then requests (trackStates (playState (project e)) ! i)
                              - (muteRequests True hl \<union> patternRequests True hl)
                       else requests (trackStates (playState (project e)) ! i)))"
proof -
  let ?n = "CONFIG_TRACK_COUNT e"
  let ?ss = "songState (playState (project e))"
  let ?sg = "song (project e)"
  let ?e' = "arbitrated True True e"
  let ?a = "afterRequests True e"
  let ?ssa = "songState (playState (project ?a))"
  let ?tsa = "trackStates (playState (project ?a))"
  have mw: "measureDivisor e \<noteq> 0" "handleSyncedRequests e" "switchToNextSlot True e"
    using measure_window_nat [OF M pos fits] last by simp_all
  have due: "slotChangeDue True True e"
    using play quiet by (simp add: slotChangeDue_def)
  have s: "0 \<le> currentSlot ?ss" "currentSlot ?ss < int (length (slots ?sg))"
    "slot = slots ?sg ! nat (currentSlot ?ss)"
    using slot by (simp_all add: Song_slot_Inr)
  have s': "0 \<le> currentSlot (nextSongState ?sg slot ?ss)"
    "currentSlot (nextSongState ?sg slot ?ss) < int (length (slots ?sg))"
    "slot' = slots ?sg ! nat (currentSlot (nextSongState ?sg slot ?ss))"
    using slot' by (simp_all add: Song_slot_Inr)
  have body: "updatePlayStateBody True True e = Inr ?e'"
    by (rule updatePlayStateBody_present [OF present])
      (use quiet s s' in \<open>simp_all\<close>)
  have run: "updatePlayState True e = Inr ?e'"
    using mw body by (simp add: updatePlayState_def)
  have proj: "project ?e' = project (slotChanged ?a)"
    by (rule arbitrated_due(1) [OF due])
  have ssa: "?ssa = (if requestsHandled e
              then SongState_clearRequests
                     (playRequests True (executeLatchedRequests (playState (project e)))
                        \<union> stopRequests True (executeLatchedRequests (playState (project e))))
                     ?ss
              else ?ss)"
    by (rule slotChangeDue_quiet(1) [OF due])
  have tsa: "?tsa = (if requestsHandled e
              then requestedTrackStates
                     (muteRequests True (executeLatchedRequests (playState (project e))))
                     (patternRequests True (executeLatchedRequests (playState (project e))))
                     [0..<?n] (trackStates (playState (project e)))
              else trackStates (playState (project e)))"
    by (rule slotChangeDue_quiet(2) [OF due])
  have cur: "slots ?sg ! nat (currentSlot ?ssa) = slot"
    using nextSongState_cleared(1) [OF ssa] s(3) by simp
  have st: "songState (playState (project ?e')) = nextSongState ?sg slot ?ssa"
    unfolding proj slotChanged_fields by (simp add: cur)
  have position: "songPosition ?e' =
                (if currentRepeat ?ss + 1 < repeats slot
                 then (currentSlot ?ss, currentRepeat ?ss + 1)
                 else (if currentSlot ?ss + 1 < slotCount ?sg then currentSlot ?ss + 1 else 0, 0))"
    unfolding songPosition_def st
      nextSongState_cleared(4) [OF ssa] nextSongState_cleared(5) [OF ssa]
    by (simp add: nextSongState_def)
  have nxt: "slots ?sg ! nat (currentSlot (nextSongState ?sg slot ?ssa)) = slot'"
    unfolding nextSongState_cleared(4) [OF ssa] using s'(3) by simp
  have ts': "trackStates (playState (project ?e')) = slotPatternStates slot' [0..<?n] ?tsa"
    unfolding proj slotChanged_fields by (simp add: cur nxt)
  have la: "length ?tsa = length (trackStates (playState (project e)))"
    unfolding tsa by simp
  have pat: "trackPatterns ?e' ! i = patterns slot' ! i" if "i < ?n" for i
  proof -
    have "i < length ?tsa"
      using that len la by simp
    then show ?thesis
      using that by (simp add: trackPatterns_def ts' slotPatternStates_nth)
  qed
  have tr: "trace ?e' = trace e @ map (\<lambda>i. TrackEv i ResetEngine) [0..<?n]
                            @ concat (map (pushEvents ?e') [0..<?n])"
    by (rule arbitrated_due(3) [OF due])
  have te: "trackEngines ?e' = trackEngines e"
    by (rule arbitrated_due(2) [OF due])
  have pl: "playing (songState (playState (project ?e')))"
    unfolding st nextSongState_cleared(6) [OF ssa] by (rule play)
  have set: "mute (trackStates (playState (project ?e')) ! i)
                    = (if requestsHandled e
                          \<and> requests (trackStates (playState (project e)) ! i)
                              \<inter> muteRequests True hl \<noteq> {}
                       then requestedMute (trackStates (playState (project e)) ! i)
                       else mute (trackStates (playState (project e)) ! i))
                \<and> requests (trackStates (playState (project ?e')) ! i)
                    = (if requestsHandled e
                       then requests (trackStates (playState (project e)) ! i)
                              - (muteRequests True hl \<union> patternRequests True hl)
                       else requests (trackStates (playState (project e)) ! i))"
    if "i < ?n" for i
    using arbitrated_settings [OF that len hl refl, of True True] by simp
  show "\<exists>e'. updatePlayState True e = Inr e'
            \<and> songPosition e' =
                (if currentRepeat ?ss + 1 < repeats slot
                 then (currentSlot ?ss, currentRepeat ?ss + 1)
                 else (if currentSlot ?ss + 1 < slotCount ?sg then currentSlot ?ss + 1 else 0, 0))
            \<and> (\<forall>i < ?n. trackPatterns e' ! i = patterns slot' ! i)
            \<and> trace e' = trace e @ map (\<lambda>i. TrackEv i ResetEngine) [0..<?n]
                            @ concat (map (pushEvents e') [0..<?n])
            \<and> trackEngines e' = trackEngines e
            \<and> playing (songState (playState (project e')))
            \<and> (\<forall>i < ?n.
                  mute (trackStates (playState (project e')) ! i)
                    = (if requestsHandled e
                          \<and> requests (trackStates (playState (project e)) ! i)
                              \<inter> muteRequests True hl \<noteq> {}
                       then requestedMute (trackStates (playState (project e)) ! i)
                       else mute (trackStates (playState (project e)) ! i))
                \<and> requests (trackStates (playState (project e')) ! i)
                    = (if requestsHandled e
                       then requests (trackStates (playState (project e)) ! i)
                              - (muteRequests True hl \<union> patternRequests True hl)
                       else requests (trackStates (playState (project e)) ! i)))"
    using run position pat tr te pl set by blast
qed

text \<open>
  C2, as the code has it. Take a call of the arbitration on the last tick of a measure
  (\<open>tick mod M = M - 1\<close>, with \<open>M = syncMeasure * CONFIG_PPQN * 4\<close> positive and below
  \<open>2^32\<close>), with an engine in every slot and a track state for every track. The block
  "handle song slot change" is entered on the state the request handling of the same
  call leaves. So, in the ticked call: when the song plays at entry, no Play request is
  carried out and no pattern or Stop request fires in the call (other requests, a
  Synced mute say, may be pending and are handled in the same call), and the current
  and the next song slot are slots of the song, the call returns and: if
  \<open>currentRepeat + 1\<close> is below the repeat count of the current slot the repeat counter is
  incremented and the slot stays; otherwise the repeat counter becomes 0 and the song
  moves to the next slot, or to slot 0 after the last one. In both cases the patterns of
  the slot that is then current are written to every track state and every track engine
  is reset, in track order, before every track state is handed to its engine; the song
  keeps playing and the mute requests of the call are applied and cleared. When the song
  does not play at entry, or a Play request is carried out, or a pattern or Stop request
  fires, the returning ticked call resets no engine and leaves the song position alone
  (a Play request that is carried out puts it on the requested slot, repeat 0); so does
  the unticked call on the same tick. On the two-slot song with one repeat each, played
  from slot 0, the last ticks of three successive measures leave the song on slots 1,
  0, 1.
\<close>

theorem song_slot_change:
  assumes M: "M = syncMeasure (project e) * CONFIG_PPQN e * 4" and pos: "0 < M" and fits: "M < 2 ^ 32"
    and last: "unat (tick e) mod M = M - 1"
    and present: "allEnginesPresent e"
    and len: "CONFIG_TRACK_COUNT e \<le> length (trackStates (playState (project e)))"
    and hl: "hl = executeLatchedRequests (playState (project e))"
  shows "(\<forall>slot slot'.
            playing (songState (playState (project e)))
            \<and> \<not> playCarriedOut True e \<and> \<not> patternRequestFires True e
            \<and> \<not> stopRequestFires True e
            \<and> Song_slot (song (project e)) (currentSlot (songState (playState (project e)))) = Inr slot
            \<and> Song_slot (song (project e))
                  (currentSlot (nextSongState (song (project e)) slot
                                  (songState (playState (project e))))) = Inr slot'
          \<longrightarrow>
            (\<exists>e'. updatePlayState True e = Inr e'
                \<and> songPosition e' =
                    (if currentRepeat (songState (playState (project e))) + 1 < repeats slot
                     then (currentSlot (songState (playState (project e))),
                           currentRepeat (songState (playState (project e))) + 1)
                     else (if currentSlot (songState (playState (project e))) + 1
                                < slotCount (song (project e))
                           then currentSlot (songState (playState (project e))) + 1 else 0, 0))
                \<and> (\<forall>i < CONFIG_TRACK_COUNT e. trackPatterns e' ! i = patterns slot' ! i)
                \<and> trace e' = trace e @ map (\<lambda>i. TrackEv i ResetEngine) [0..<CONFIG_TRACK_COUNT e]
                                @ concat (map (pushEvents e') [0..<CONFIG_TRACK_COUNT e])
                \<and> trackEngines e' = trackEngines e
                \<and> playing (songState (playState (project e')))
                \<and> (\<forall>i < CONFIG_TRACK_COUNT e.
                      mute (trackStates (playState (project e')) ! i)
                        = (if requestsHandled e
                              \<and> requests (trackStates (playState (project e)) ! i)
                                  \<inter> muteRequests True hl \<noteq> {}
                           then requestedMute (trackStates (playState (project e)) ! i)
                           else mute (trackStates (playState (project e)) ! i))
                    \<and> requests (trackStates (playState (project e')) ! i)
                        = (if requestsHandled e
                           then requests (trackStates (playState (project e)) ! i)
                                  - (muteRequests True hl \<union> patternRequests True hl)
                           else requests (trackStates (playState (project e)) ! i)))))
       \<and> (\<forall>e'. updatePlayState True e = Inr e'
              \<and> (\<not> playing (songState (playState (project e))) \<or> playCarriedOut True e
                 \<or> patternRequestFires True e \<or> stopRequestFires True e)
          \<longrightarrow> songPosition e'
                = (if playCarriedOut True e
                   then (requestedSlot (songState (playState (project e))), 0)
                   else songPosition e)
              \<and> (\<forall>i. TrackEv i ResetEngine \<notin> set (drop (length (trace e)) (trace e'))))
       \<and> (\<forall>e'. updatePlayState False e = Inr e'
          \<longrightarrow> songPosition e'
                = (if playCarriedOut True e
                   then (requestedSlot (songState (playState (project e))), 0)
                   else songPosition e)
              \<and> (\<forall>i. TrackEv i ResetEngine \<notin> set (drop (length (trace e)) (trace e'))))
       \<and> (\<exists>e1 e2 e3.
             updatePlayState True (scenarioEngine\<lparr>tick := 767\<rparr>) = Inr e1
           \<and> updatePlayState True (e1\<lparr>tick := 1535\<rparr>) = Inr e2
           \<and> updatePlayState True (e2\<lparr>tick := 2303\<rparr>) = Inr e3
           \<and> map songPosition [scenarioEngine, e1, e2, e3] = [(0, 0), (1, 0), (0, 0), (1, 0)])"
proof -
  have mw: "measureDivisor e \<noteq> 0" "handleSyncedRequests e" "switchToNextSlot True e"
    "\<not> switchToNextSlot False e"
    using measure_window_nat(1,2) [OF M pos fits] measure_window_nat(3) [OF M pos fits, of True]
      measure_window_nat(3) [OF M pos fits, of False] last by simp_all
  have a: "\<forall>slot slot'.
            playing (songState (playState (project e)))
            \<and> \<not> playCarriedOut True e \<and> \<not> patternRequestFires True e
            \<and> \<not> stopRequestFires True e
            \<and> Song_slot (song (project e)) (currentSlot (songState (playState (project e)))) = Inr slot
            \<and> Song_slot (song (project e))
                  (currentSlot (nextSongState (song (project e)) slot
                                  (songState (playState (project e))))) = Inr slot'
          \<longrightarrow>
            (\<exists>e'. updatePlayState True e = Inr e'
                \<and> songPosition e' =
                    (if currentRepeat (songState (playState (project e))) + 1 < repeats slot
                     then (currentSlot (songState (playState (project e))),
                           currentRepeat (songState (playState (project e))) + 1)
                     else (if currentSlot (songState (playState (project e))) + 1
                                < slotCount (song (project e))
                           then currentSlot (songState (playState (project e))) + 1 else 0, 0))
                \<and> (\<forall>i < CONFIG_TRACK_COUNT e. trackPatterns e' ! i = patterns slot' ! i)
                \<and> trace e' = trace e @ map (\<lambda>i. TrackEv i ResetEngine) [0..<CONFIG_TRACK_COUNT e]
                                @ concat (map (pushEvents e') [0..<CONFIG_TRACK_COUNT e])
                \<and> trackEngines e' = trackEngines e
                \<and> playing (songState (playState (project e')))
                \<and> (\<forall>i < CONFIG_TRACK_COUNT e.
                      mute (trackStates (playState (project e')) ! i)
                        = (if requestsHandled e
                              \<and> requests (trackStates (playState (project e)) ! i)
                                  \<inter> muteRequests True hl \<noteq> {}
                           then requestedMute (trackStates (playState (project e)) ! i)
                           else mute (trackStates (playState (project e)) ! i))
                    \<and> requests (trackStates (playState (project e')) ! i)
                        = (if requestsHandled e
                           then requests (trackStates (playState (project e)) ! i)
                                  - (muteRequests True hl \<union> patternRequests True hl)
                           else requests (trackStates (playState (project e)) ! i))))"
  proof (intro allI impI, elim conjE)
    fix slot slot'
    assume play: "playing (songState (playState (project e)))"
      and quiet: "\<not> playCarriedOut True e" "\<not> patternRequestFires True e"
        "\<not> stopRequestFires True e"
      and slot: "Song_slot (song (project e)) (currentSlot (songState (playState (project e))))
                   = Inr slot"
      and slot': "Song_slot (song (project e))
                  (currentSlot (nextSongState (song (project e)) slot
                                  (songState (playState (project e))))) = Inr slot'"
    show "\<exists>e'. updatePlayState True e = Inr e'
            \<and> songPosition e' =
                (if currentRepeat (songState (playState (project e))) + 1 < repeats slot
                 then (currentSlot (songState (playState (project e))),
                       currentRepeat (songState (playState (project e))) + 1)
                 else (if currentSlot (songState (playState (project e))) + 1
                            < slotCount (song (project e))
                       then currentSlot (songState (playState (project e))) + 1 else 0, 0))
            \<and> (\<forall>i < CONFIG_TRACK_COUNT e. trackPatterns e' ! i = patterns slot' ! i)
            \<and> trace e' = trace e @ map (\<lambda>i. TrackEv i ResetEngine) [0..<CONFIG_TRACK_COUNT e]
                            @ concat (map (pushEvents e') [0..<CONFIG_TRACK_COUNT e])
            \<and> trackEngines e' = trackEngines e
            \<and> playing (songState (playState (project e')))
            \<and> (\<forall>i < CONFIG_TRACK_COUNT e.
                  mute (trackStates (playState (project e')) ! i)
                    = (if requestsHandled e
                          \<and> requests (trackStates (playState (project e)) ! i)
                              \<inter> muteRequests True hl \<noteq> {}
                       then requestedMute (trackStates (playState (project e)) ! i)
                       else mute (trackStates (playState (project e)) ! i))
                \<and> requests (trackStates (playState (project e')) ! i)
                    = (if requestsHandled e
                       then requests (trackStates (playState (project e)) ! i)
                              - (muteRequests True hl \<union> patternRequests True hl)
                       else requests (trackStates (playState (project e)) ! i)))"
      by (rule updatePlayState_slot_change [OF M pos fits last present len play quiet slot slot' hl])
  qed
  have quietless: "songPosition e'
                = (if playCarriedOut True e
                   then (requestedSlot (songState (playState (project e))), 0)
                   else songPosition e)
              \<and> (\<forall>i. TrackEv i ResetEngine \<notin> set (drop (length (trace e)) (trace e')))"
    if body: "updatePlayStateBody True sw e = Inr e'" and nd: "\<not> slotChangeDue True sw e"
    for sw e'
  proof -
    have e': "e' = arbitrated True sw e"
      using body by (rule updatePlayStateBody_Inr)
    have "TrackEv i ResetEngine \<notin> set (drop (length (trace e)) (trace e'))" for i
      unfolding e' arbitrated_not_due(3) [OF nd]
      using pushEvents_no_reset [of i "arbitrated True sw e" "[0..<CONFIG_TRACK_COUNT e]"]
      by (simp del: set_concat)
    then show ?thesis
      unfolding e' using arbitrated_song(3) [OF refl refl nd] by simp
  qed
  have b: "\<forall>e'. updatePlayState True e = Inr e'
              \<and> (\<not> playing (songState (playState (project e))) \<or> playCarriedOut True e
                 \<or> patternRequestFires True e \<or> stopRequestFires True e)
          \<longrightarrow> songPosition e'
                = (if playCarriedOut True e
                   then (requestedSlot (songState (playState (project e))), 0)
                   else songPosition e)
              \<and> (\<forall>i. TrackEv i ResetEngine \<notin> set (drop (length (trace e)) (trace e')))"
  proof (intro allI impI, elim conjE)
    fix e'
    assume run: "updatePlayState True e = Inr e'"
      and c: "\<not> playing (songState (playState (project e))) \<or> playCarriedOut True e
                 \<or> patternRequestFires True e \<or> stopRequestFires True e"
    from run mw have body: "updatePlayStateBody True True e = Inr e'"
      by (simp add: updatePlayState_def)
    from c have nd: "\<not> slotChangeDue True True e"
      by (auto simp: slotChangeDue_def)
    from quietless [OF body nd]
    show "songPosition e'
                = (if playCarriedOut True e
                   then (requestedSlot (songState (playState (project e))), 0)
                   else songPosition e)
              \<and> (\<forall>i. TrackEv i ResetEngine \<notin> set (drop (length (trace e)) (trace e')))" .
  qed
  have c: "\<forall>e'. updatePlayState False e = Inr e'
          \<longrightarrow> songPosition e'
                = (if playCarriedOut True e
                   then (requestedSlot (songState (playState (project e))), 0)
                   else songPosition e)
              \<and> (\<forall>i. TrackEv i ResetEngine \<notin> set (drop (length (trace e)) (trace e')))"
  proof (intro allI impI)
    fix e'
    assume run: "updatePlayState False e = Inr e'"
    from run mw have body: "updatePlayStateBody True False e = Inr e'"
      by (simp add: updatePlayState_def)
    have nd: "\<not> slotChangeDue True False e"
      by (simp add: slotChangeDue_def)
    from quietless [OF body nd]
    show "songPosition e'
                = (if playCarriedOut True e
                   then (requestedSlot (songState (playState (project e))), 0)
                   else songPosition e)
              \<and> (\<forall>i. TrackEv i ResetEngine \<notin> set (drop (length (trace e)) (trace e')))" .
  qed
  have d: "\<exists>e1 e2 e3.
             updatePlayState True (scenarioEngine\<lparr>tick := 767\<rparr>) = Inr e1
           \<and> updatePlayState True (e1\<lparr>tick := 1535\<rparr>) = Inr e2
           \<and> updatePlayState True (e2\<lparr>tick := 2303\<rparr>) = Inr e3
           \<and> map songPosition [scenarioEngine, e1, e2, e3] = [(0, 0), (1, 0), (0, 0), (1, 0)]"
    by (simp add: songPosition_def model_defs)
  from a b c d show ?thesis
    by (intro conjI)
qed

theorem song_slot_change_witness:
  "allEnginesPresent mutePendingScenario
   \<and> unat (tick mutePendingScenario) mod 768 = 767
   \<and> playing (songState (playState (project mutePendingScenario)))
   \<and> requestsHandled mutePendingScenario
   \<and> SyncedMuteRequest \<in> requests (trackStates (playState (project mutePendingScenario)) ! 0)
   \<and> songPosition mutePendingScenario = (0, 0)
   \<and> (\<exists>e'. updatePlayState True mutePendingScenario = Inr e'
          \<and> songPosition e' = (0, 1)
          \<and> trackPatterns e' ! 0 = 3 \<and> trackPatterns e' ! 1 = 4
          \<and> mute (trackStates (playState (project e')) ! 0)
          \<and> requests (trackStates (playState (project e')) ! 0) = {}
          \<and> take 2 (trace e') = [TrackEv 0 ResetEngine, TrackEv 1 ResetEngine])
   \<and> playing (songState (playState (project (syncedScenario 767))))
   \<and> patternRequestFires True (syncedScenario 767)
   \<and> songPosition (syncedScenario 767) = (0, 0)
   \<and> (\<exists>e'. updatePlayState True (syncedScenario 767) = Inr e'
          \<and> songPosition e' = (0, 0)
          \<and> TrackEv 0 ResetEngine \<notin> set (trace e') \<and> TrackEv 1 ResetEngine \<notin> set (trace e'))"
proof -
  let ?e = "mutePendingScenario"
  let ?f = "syncedScenario 767"
  have nf: "(0::nat) < 768" "(768::nat) < 2 ^ 32"
    by simp_all
  have h: "768 = syncMeasure (project ?e) * CONFIG_PPQN ?e * 4"
    "unat (tick ?e) mod 768 = 768 - 1"
    "allEnginesPresent ?e"
    "CONFIG_TRACK_COUNT ?e \<le> length (trackStates (playState (project ?e)))"
    "False = executeLatchedRequests (playState (project ?e))"
    by (simp_all add: mutePendingScenario_def repeatScenario_def allEnginesPresent_def model_defs)
  have q: "playing (songState (playState (project ?e)))
            \<and> \<not> playCarriedOut True ?e \<and> \<not> patternRequestFires True ?e
            \<and> \<not> stopRequestFires True ?e
            \<and> Song_slot (song (project ?e)) (currentSlot (songState (playState (project ?e))))
                = Inr \<lparr>patterns = [3, 4], repeats = 2\<rparr>
            \<and> Song_slot (song (project ?e))
                  (currentSlot (nextSongState (song (project ?e)) \<lparr>patterns = [3, 4], repeats = 2\<rparr>
                                  (songState (playState (project ?e)))))
                = Inr \<lparr>patterns = [3, 4], repeats = 2\<rparr>"
    by (simp add: mutePendingScenario_def repeatScenario_def
        nextSongState_def requestsHandled_def playCarriedOut_def patternRequestFires_def
        stopRequestFires_def arbitration_defs model_defs)
  have s: "requestsHandled ?e" "CONFIG_TRACK_COUNT ?e = 2" "trace ?e = []"
    "songPosition ?e = (0, 0)"
    "currentSlot (songState (playState (project ?e))) = 0"
    "currentRepeat (songState (playState (project ?e))) = 0"
    "requests (trackStates (playState (project ?e)) ! 0) = {SyncedMuteRequest}"
    "requestedMute (trackStates (playState (project ?e)) ! 0)"
    by (simp_all add: mutePendingScenario_def repeatScenario_def requestsHandled_def
        songPosition_def model_defs)
  note main = song_slot_change [OF h(1) nf h(2-5)]
  from main [THEN conjunct1, rule_format, OF q] obtain e' where
    run: "updatePlayState True ?e = Inr e'"
    and position: "songPosition e' = (0, 1)"
    and pat: "\<forall>i<CONFIG_TRACK_COUNT ?e. trackPatterns e' ! i = [3, 4] ! i"
    and tr: "trace e' = trace ?e @ map (\<lambda>i. TrackEv i ResetEngine) [0..<CONFIG_TRACK_COUNT ?e]
                            @ concat (map (pushEvents e') [0..<CONFIG_TRACK_COUNT ?e])"
    and set: "\<forall>i < CONFIG_TRACK_COUNT ?e.
                  mute (trackStates (playState (project e')) ! i)
                    = (if requestsHandled ?e
                          \<and> requests (trackStates (playState (project ?e)) ! i)
                              \<inter> muteRequests True False \<noteq> {}
                       then requestedMute (trackStates (playState (project ?e)) ! i)
                       else mute (trackStates (playState (project ?e)) ! i))
                \<and> requests (trackStates (playState (project e')) ! i)
                    = (if requestsHandled ?e
                       then requests (trackStates (playState (project ?e)) ! i)
                              - (muteRequests True False \<union> patternRequests True False)
                       else requests (trackStates (playState (project ?e)) ! i))"
    using s(5,6) by auto
  from pat s(2) have p: "trackPatterns e' ! 0 = 3" "trackPatterns e' ! 1 = 4"
    by simp_all
  from set s have m: "mute (trackStates (playState (project e')) ! 0)"
    "requests (trackStates (playState (project e')) ! 0) = {}"
    by (simp_all add: muteRequests_def patternRequests_def)
  from tr s(2,3) have t: "take 2 (trace e') = [TrackEv 0 ResetEngine, TrackEv 1 ResetEngine]"
    by (simp add: upt_rec)
  have first: "\<exists>e'. updatePlayState True ?e = Inr e'
          \<and> songPosition e' = (0, 1)
          \<and> trackPatterns e' ! 0 = 3 \<and> trackPatterns e' ! 1 = 4
          \<and> mute (trackStates (playState (project e')) ! 0)
          \<and> requests (trackStates (playState (project e')) ! 0) = {}
          \<and> take 2 (trace e') = [TrackEv 0 ResetEngine, TrackEv 1 ResetEngine]"
    using run position p m t by blast
  have g: "768 = syncMeasure (project ?f) * CONFIG_PPQN ?f * 4"
    "unat (tick ?f) mod 768 = 768 - 1"
    "allEnginesPresent ?f"
    "CONFIG_TRACK_COUNT ?f \<le> length (trackStates (playState (project ?f)))"
    "False = executeLatchedRequests (playState (project ?f))"
    by (simp_all add: syncedScenario_def allEnginesPresent_def model_defs)
  have u: "playing (songState (playState (project ?f)))" "patternRequestFires True ?f"
    "\<not> playCarriedOut True ?f" "songPosition ?f = (0, 0)" "trace ?f = []"
    by (simp_all add: syncedScenario_def requestsHandled_def playCarriedOut_def
        patternRequestFires_def songPosition_def arbitration_defs model_defs)
  have "\<exists>e'. updatePlayState True ?f = Inr e'"
    by (simp add: syncedScenario_def arbitration_defs model_defs)
  then obtain f' where f': "updatePlayState True ?f = Inr f'" ..
  from song_slot_change [OF g(1) nf g(2-5), THEN conjunct2, THEN conjunct1, rule_format,
      OF conjI, OF f'] u
  have second: "songPosition f' = (0, 0)"
    "TrackEv 0 ResetEngine \<notin> set (trace f')" "TrackEv 1 ResetEngine \<notin> set (trace f')"
    by auto
  from first f' second h(2,3) q s(1,4,7) u(1,2,4) show ?thesis
    by auto
qed

theorem song_slot_change_counterexample:
  "playing (songState (playState (project repeatScenario)))
   \<and> switchToNextSlot True repeatScenario
   \<and> songPosition repeatScenario = (0, 0)
   \<and> repeats (slots (song (project repeatScenario)) ! 0) = 2
   \<and> trackPatterns repeatScenario = [0, 0]
   \<and> (\<exists>e'. updatePlayState True repeatScenario = Inr e'
          \<and> songPosition e' = (0, 1)
          \<and> trackPatterns e' = [3, 4]
          \<and> trace e' = [TrackEv 0 ResetEngine, TrackEv 1 ResetEngine,
                         TrackEv 0 (SetMute False), TrackEv 0 (SetFill False),
                         TrackEv 0 (SetPattern 3), TrackEv 1 (SetMute False),
                         TrackEv 1 (SetFill False), TrackEv 1 (SetPattern 4)])"
  by (simp add: repeatScenario_def songPosition_def trackPatterns_def model_defs)

subsection \<open>Measure window of the arbitration\<close>

lemma updatePlayState_window_result:
  assumes M: "M = syncMeasure (project e) * CONFIG_PPQN e * 4"
    and pos: "0 < M" and fits: "M < 2 ^ 32"
    and W: "W = (unat (tick e) mod M = 0 \<or> unat (tick e) mod M = M - 1)"
    and S: "S = (ticked \<and> unat (tick e) mod M = M - 1)"
    and hl: "hl = executeLatchedRequests (playState (project e))"
    and len: "CONFIG_TRACK_COUNT e \<le> length (trackStates (playState (project e)))"
    and run: "updatePlayState ticked e = Inr e'"
  shows "handleSyncedRequests e = W \<and> switchToNextSlot ticked e = S
       \<and> updatePlayState ticked e = updatePlayStateBody W S e
       \<and> (requestsHandled e \<longrightarrow>
            (\<forall>i < CONFIG_TRACK_COUNT e.
                requests (trackStates (playState (project e')) ! i)
                  = requests (trackStates (playState (project e)) ! i)
                      - (muteRequests W hl \<union> patternRequests W hl)
              \<and> mute (trackStates (playState (project e')) ! i)
                  = (if requests (trackStates (playState (project e)) ! i) \<inter> muteRequests W hl \<noteq> {}
                     then requestedMute (trackStates (playState (project e)) ! i)
                     else mute (trackStates (playState (project e)) ! i))
              \<and> (SyncedMuteRequest \<in> requests (trackStates (playState (project e)) ! i) \<longrightarrow>
                   (if W
                    then mute (trackStates (playState (project e')) ! i)
                           = requestedMute (trackStates (playState (project e)) ! i)
                         \<and> SyncedMuteRequest \<notin> requests (trackStates (playState (project e')) ! i)
                    else SyncedMuteRequest \<in> requests (trackStates (playState (project e')) ! i)
                         \<and> (requests (trackStates (playState (project e)) ! i)
                               \<inter> {ImmediateMuteRequest, LatchedMuteRequest} = {}
                             \<longrightarrow> mute (trackStates (playState (project e')) ! i)
                                   = mute (trackStates (playState (project e)) ! i))))
              \<and> (SyncedPatternRequest \<in> requests (trackStates (playState (project e)) ! i) \<longrightarrow>
                   (if W
                    then SyncedPatternRequest
                           \<notin> requests (trackStates (playState (project e')) ! i)
                         \<and> (\<not> playCarriedOut W e
                             \<longrightarrow> pattern (trackStates (playState (project e')) ! i)
                                   = requestedPattern (trackStates (playState (project e)) ! i))
                    else SyncedPatternRequest \<in> requests (trackStates (playState (project e')) ! i)
                         \<and> (requests (trackStates (playState (project e)) ! i)
                               \<inter> {ImmediatePatternRequest, LatchedPatternRequest} = {}
                             \<and> \<not> playCarriedOut W e
                             \<longrightarrow> pattern (trackStates (playState (project e')) ! i)
                                   = pattern (trackStates (playState (project e)) ! i)))))
          \<and> songRequests (songState (playState (project e')))
              = songRequests (songState (playState (project e)))
                  - (playRequests W hl \<union> stopRequests W hl)
          \<and> (SyncedPlayRequest \<in> songRequests (songState (playState (project e))) \<longrightarrow>
               (if W
                then SyncedPlayRequest \<notin> songRequests (songState (playState (project e')))
                     \<and> (0 \<le> requestedSlot (songState (playState (project e)))
                         \<and> requestedSlot (songState (playState (project e)))
                             < slotCount (song (project e))
                         \<longrightarrow> songPosition e'
                               = (requestedSlot (songState (playState (project e))), 0))
                else SyncedPlayRequest \<in> songRequests (songState (playState (project e')))
                     \<and> (songRequests (songState (playState (project e)))
                           \<inter> {ImmediatePlayRequest, LatchedPlayRequest} = {}
                         \<longrightarrow> songPosition e' = songPosition e)))
          \<and> (SyncedStopRequest \<in> songRequests (songState (playState (project e))) \<longrightarrow>
               (if W
                then SyncedStopRequest \<notin> songRequests (songState (playState (project e')))
                     \<and> \<not> playing (songState (playState (project e')))
                else SyncedStopRequest \<in> songRequests (songState (playState (project e'))))))
       \<and> (\<not> requestsHandled e \<longrightarrow>
            (\<forall>i < CONFIG_TRACK_COUNT e.
                requests (trackStates (playState (project e')) ! i)
                  = requests (trackStates (playState (project e)) ! i)
              \<and> mute (trackStates (playState (project e')) ! i)
                  = mute (trackStates (playState (project e)) ! i))
          \<and> songRequests (songState (playState (project e')))
              = songRequests (songState (playState (project e))))
       \<and> trace e' =
           trace e
           @ (if S \<and> playing (songState (playState (project e))) \<and> \<not> playCarriedOut W e
                 \<and> \<not> patternRequestFires W e \<and> \<not> stopRequestFires W e
              then map (\<lambda>i. TrackEv i ResetEngine) [0..<CONFIG_TRACK_COUNT e] else [])
           @ (if requestsHandled e \<or> S
              then concat (map (pushEvents e') [0..<CONFIG_TRACK_COUNT e]) else [])"
proof -
  let ?ts = "\<lambda>i. trackStates (playState (project e)) ! i"
  let ?ts' = "\<lambda>i. trackStates (playState (project e')) ! i"
  let ?ss = "songState (playState (project e))"
  let ?ss' = "songState (playState (project e'))"
  have mw: "measureDivisor e \<noteq> 0" "handleSyncedRequests e = W" "switchToNextSlot ticked e = S"
    using measure_window_nat(1,2) [OF M pos fits] measure_window_nat(3) [OF M pos fits, of ticked]
      W S by simp_all
  have body: "updatePlayState ticked e = updatePlayStateBody W S e"
    using mw by (simp add: updatePlayState_def)
  have e': "e' = arbitrated W S e"
    using run unfolding body by (rule updatePlayStateBody_Inr)
  have SW: "S \<Longrightarrow> W"
    using W S by simp
  have nd: "\<not> W \<Longrightarrow> \<not> slotChangeDue W S e"
    using SW by (auto simp: slotChangeDue_def)
  have ndp: "playCarriedOut W e \<Longrightarrow> \<not> slotChangeDue W S e"
    by (simp add: slotChangeDue_def)
  have settings: "mute (?ts' i)
           = (if requestsHandled e \<and> requests (?ts i) \<inter> muteRequests W hl \<noteq> {}
              then requestedMute (?ts i) else mute (?ts i))"
    "requests (?ts' i)
           = (if requestsHandled e
              then requests (?ts i) - (muteRequests W hl \<union> patternRequests W hl)
              else requests (?ts i))"
    if "i < CONFIG_TRACK_COUNT e" for i
    unfolding e' using arbitrated_settings [OF that len hl refl, of W S] by simp_all
  have pat: "pattern (?ts' i)
           = (if playCarriedOut W e
              then patterns (slots (song (project e)) ! nat (requestedSlot ?ss)) ! i
              else if requestsHandled e \<and> requests (?ts i) \<inter> patternRequests W hl \<noteq> {}
              then requestedPattern (?ts i) else pattern (?ts i))"
    if "i < CONFIG_TRACK_COUNT e" and "\<not> slotChangeDue W S e" for i
    unfolding e' using arbitrated_pattern [OF that(1) len hl refl that(2)] by simp
  have fires: "patternRequestFires W e"
    if "requestsHandled e" and "i < CONFIG_TRACK_COUNT e"
      and "requests (?ts i) \<inter> patternRequests W hl \<noteq> {}" for i
    using that unfolding patternRequestFires_def list_ex_iff hl by auto
  have song: "songRequests ?ss'
           = (if requestsHandled e
              then songRequests ?ss - (playRequests W hl \<union> stopRequests W hl)
              else songRequests ?ss)"
    "playing ?ss' = ((playing ?ss \<or> playCarriedOut W e)
              \<and> \<not> patternRequestFires W e \<and> \<not> stopRequestFires W e)"
    unfolding e' using arbitrated_song(1,2) [OF hl refl, of W S] by simp_all
  have position: "songPosition e'
           = (if playCarriedOut W e then (requestedSlot ?ss, 0) else songPosition e)"
    if "\<not> slotChangeDue W S e"
    unfolding e' using arbitrated_song(3) [OF hl refl that] by simp
  have tr: "trace e' =
           trace e
           @ (if S \<and> playing ?ss \<and> \<not> playCarriedOut W e
                 \<and> \<not> patternRequestFires W e \<and> \<not> stopRequestFires W e
              then map (\<lambda>i. TrackEv i ResetEngine) [0..<CONFIG_TRACK_COUNT e] else [])
           @ (if requestsHandled e \<or> S
              then concat (map (pushEvents e') [0..<CONFIG_TRACK_COUNT e]) else [])"
    unfolding e' using arbitrated_trace [of W S e] by (simp add: slotChangeDue_def)
  have track: "requests (?ts' i) = requests (?ts i) - (muteRequests W hl \<union> patternRequests W hl)
              \<and> mute (?ts' i)
                  = (if requests (?ts i) \<inter> muteRequests W hl \<noteq> {}
                     then requestedMute (?ts i) else mute (?ts i))
              \<and> (SyncedMuteRequest \<in> requests (?ts i) \<longrightarrow>
                   (if W
                    then mute (?ts' i) = requestedMute (?ts i)
                         \<and> SyncedMuteRequest \<notin> requests (?ts' i)
                    else SyncedMuteRequest \<in> requests (?ts' i)
                         \<and> (requests (?ts i) \<inter> {ImmediateMuteRequest, LatchedMuteRequest} = {}
                             \<longrightarrow> mute (?ts' i) = mute (?ts i))))
              \<and> (SyncedPatternRequest \<in> requests (?ts i) \<longrightarrow>
                   (if W
                    then SyncedPatternRequest \<notin> requests (?ts' i)
                         \<and> (\<not> playCarriedOut W e
                             \<longrightarrow> pattern (?ts' i) = requestedPattern (?ts i))
                    else SyncedPatternRequest \<in> requests (?ts' i)
                         \<and> (requests (?ts i)
                               \<inter> {ImmediatePatternRequest, LatchedPatternRequest} = {}
                             \<and> \<not> playCarriedOut W e
                             \<longrightarrow> pattern (?ts' i) = pattern (?ts i))))"
    if h: "requestsHandled e" and i: "i < CONFIG_TRACK_COUNT e" for i
  proof (intro conjI impI)
    show "requests (?ts' i) = requests (?ts i) - (muteRequests W hl \<union> patternRequests W hl)"
      using settings(2) [OF i] h by simp
    show "mute (?ts' i)
                  = (if requests (?ts i) \<inter> muteRequests W hl \<noteq> {}
                     then requestedMute (?ts i) else mute (?ts i))"
      using settings(1) [OF i] h by simp
    show "if W
          then mute (?ts' i) = requestedMute (?ts i) \<and> SyncedMuteRequest \<notin> requests (?ts' i)
          else SyncedMuteRequest \<in> requests (?ts' i)
               \<and> (requests (?ts i) \<inter> {ImmediateMuteRequest, LatchedMuteRequest} = {}
                   \<longrightarrow> mute (?ts' i) = mute (?ts i))"
      if "SyncedMuteRequest \<in> requests (?ts i)"
      using that settings [OF i] h
      by (auto simp: muteRequests_def patternRequests_def)
    show "if W
          then SyncedPatternRequest \<notin> requests (?ts' i)
               \<and> (\<not> playCarriedOut W e \<longrightarrow> pattern (?ts' i) = requestedPattern (?ts i))
          else SyncedPatternRequest \<in> requests (?ts' i)
               \<and> (requests (?ts i) \<inter> {ImmediatePatternRequest, LatchedPatternRequest} = {}
                   \<and> \<not> playCarriedOut W e
                   \<longrightarrow> pattern (?ts' i) = pattern (?ts i))"
      if p: "SyncedPatternRequest \<in> requests (?ts i)"
    proof (cases W)
      case True
      with p have f: "requests (?ts i) \<inter> patternRequests W hl \<noteq> {}"
        by (auto simp: patternRequests_def)
      then have "patternRequestFires W e"
        using fires [OF h i] by simp
      then have "\<not> slotChangeDue W S e"
        by (simp add: slotChangeDue_def)
      from pat [OF i this] f h True settings(2) [OF i] show ?thesis
        by (auto simp: muteRequests_def patternRequests_def)
    next
      case False
      from pat [OF i nd [OF False]] p h False settings(2) [OF i] show ?thesis
        by (auto simp: muteRequests_def patternRequests_def)
    qed
  qed
  have play: "if W
                then SyncedPlayRequest \<notin> songRequests ?ss'
                     \<and> (0 \<le> requestedSlot ?ss \<and> requestedSlot ?ss < slotCount (song (project e))
                         \<longrightarrow> songPosition e' = (requestedSlot ?ss, 0))
                else SyncedPlayRequest \<in> songRequests ?ss'
                     \<and> (songRequests ?ss \<inter> {ImmediatePlayRequest, LatchedPlayRequest} = {}
                         \<longrightarrow> songPosition e' = songPosition e)"
    if h: "requestsHandled e" and p: "SyncedPlayRequest \<in> songRequests ?ss"
  proof (cases W)
    case True
    have "songPosition e' = (requestedSlot ?ss, 0)"
      if "0 \<le> requestedSlot ?ss \<and> requestedSlot ?ss < slotCount (song (project e))"
    proof -
      have c: "playCarriedOut W e"
        using that h p True by (auto simp: playCarriedOut_def playRequests_def)
      from position [OF ndp [OF c]] c show ?thesis
        by simp
    qed
    with True song(1) h show ?thesis
      by (auto simp: playRequests_def)
  next
    case False
    have "songPosition e' = songPosition e"
      if "songRequests ?ss \<inter> {ImmediatePlayRequest, LatchedPlayRequest} = {}"
    proof -
      have c: "\<not> playCarriedOut W e"
        using that False by (auto simp: playCarriedOut_def playRequests_def)
      from position [OF nd [OF False]] c show ?thesis
        by simp
    qed
    with False song(1) h p show ?thesis
      by (auto simp: playRequests_def stopRequests_def)
  qed
  have stop: "if W
                then SyncedStopRequest \<notin> songRequests ?ss' \<and> \<not> playing ?ss'
                else SyncedStopRequest \<in> songRequests ?ss'"
    if h: "requestsHandled e" and p: "SyncedStopRequest \<in> songRequests ?ss"
  proof (cases W)
    case True
    then have "stopRequestFires W e"
      using h p by (auto simp: stopRequestFires_def stopRequests_def)
    with True song h show ?thesis
      by (auto simp: stopRequests_def)
  next
    case False
    with song(1) h p show ?thesis
      by (auto simp: playRequests_def stopRequests_def)
  qed
  have handled: "requestsHandled e \<longrightarrow>
            (\<forall>i < CONFIG_TRACK_COUNT e.
                requests (?ts' i) = requests (?ts i) - (muteRequests W hl \<union> patternRequests W hl)
              \<and> mute (?ts' i)
                  = (if requests (?ts i) \<inter> muteRequests W hl \<noteq> {}
                     then requestedMute (?ts i) else mute (?ts i))
              \<and> (SyncedMuteRequest \<in> requests (?ts i) \<longrightarrow>
                   (if W
                    then mute (?ts' i) = requestedMute (?ts i)
                         \<and> SyncedMuteRequest \<notin> requests (?ts' i)
                    else SyncedMuteRequest \<in> requests (?ts' i)
                         \<and> (requests (?ts i) \<inter> {ImmediateMuteRequest, LatchedMuteRequest} = {}
                             \<longrightarrow> mute (?ts' i) = mute (?ts i))))
              \<and> (SyncedPatternRequest \<in> requests (?ts i) \<longrightarrow>
                   (if W
                    then SyncedPatternRequest \<notin> requests (?ts' i)
                         \<and> (\<not> playCarriedOut W e
                             \<longrightarrow> pattern (?ts' i) = requestedPattern (?ts i))
                    else SyncedPatternRequest \<in> requests (?ts' i)
                         \<and> (requests (?ts i)
                               \<inter> {ImmediatePatternRequest, LatchedPatternRequest} = {}
                             \<and> \<not> playCarriedOut W e
                             \<longrightarrow> pattern (?ts' i) = pattern (?ts i)))))
          \<and> songRequests ?ss' = songRequests ?ss - (playRequests W hl \<union> stopRequests W hl)
          \<and> (SyncedPlayRequest \<in> songRequests ?ss \<longrightarrow>
               (if W
                then SyncedPlayRequest \<notin> songRequests ?ss'
                     \<and> (0 \<le> requestedSlot ?ss \<and> requestedSlot ?ss < slotCount (song (project e))
                         \<longrightarrow> songPosition e' = (requestedSlot ?ss, 0))
                else SyncedPlayRequest \<in> songRequests ?ss'
                     \<and> (songRequests ?ss \<inter> {ImmediatePlayRequest, LatchedPlayRequest} = {}
                         \<longrightarrow> songPosition e' = songPosition e)))
          \<and> (SyncedStopRequest \<in> songRequests ?ss \<longrightarrow>
               (if W
                then SyncedStopRequest \<notin> songRequests ?ss' \<and> \<not> playing ?ss'
                else SyncedStopRequest \<in> songRequests ?ss'))"
  proof (intro impI conjI allI)
    fix i
    assume "requestsHandled e" and "i < CONFIG_TRACK_COUNT e"
    from track [OF this]
    show "requests (?ts' i) = requests (?ts i) - (muteRequests W hl \<union> patternRequests W hl)"
      and "mute (?ts' i)
                  = (if requests (?ts i) \<inter> muteRequests W hl \<noteq> {}
                     then requestedMute (?ts i) else mute (?ts i))"
      and "SyncedMuteRequest \<in> requests (?ts i) \<Longrightarrow>
                   (if W
                    then mute (?ts' i) = requestedMute (?ts i)
                         \<and> SyncedMuteRequest \<notin> requests (?ts' i)
                    else SyncedMuteRequest \<in> requests (?ts' i)
                         \<and> (requests (?ts i) \<inter> {ImmediateMuteRequest, LatchedMuteRequest} = {}
                             \<longrightarrow> mute (?ts' i) = mute (?ts i)))"
      and "SyncedPatternRequest \<in> requests (?ts i) \<Longrightarrow>
                   (if W
                    then SyncedPatternRequest \<notin> requests (?ts' i)
                         \<and> (\<not> playCarriedOut W e
                             \<longrightarrow> pattern (?ts' i) = requestedPattern (?ts i))
                    else SyncedPatternRequest \<in> requests (?ts' i)
                         \<and> (requests (?ts i)
                               \<inter> {ImmediatePatternRequest, LatchedPatternRequest} = {}
                             \<and> \<not> playCarriedOut W e
                             \<longrightarrow> pattern (?ts' i) = pattern (?ts i)))"
      by blast+
  next
    assume "requestsHandled e"
    with song(1) show "songRequests ?ss'
                         = songRequests ?ss - (playRequests W hl \<union> stopRequests W hl)"
      by simp
  next
    assume "requestsHandled e" and "SyncedPlayRequest \<in> songRequests ?ss"
    then show "if W
                then SyncedPlayRequest \<notin> songRequests ?ss'
                     \<and> (0 \<le> requestedSlot ?ss \<and> requestedSlot ?ss < slotCount (song (project e))
                         \<longrightarrow> songPosition e' = (requestedSlot ?ss, 0))
                else SyncedPlayRequest \<in> songRequests ?ss'
                     \<and> (songRequests ?ss \<inter> {ImmediatePlayRequest, LatchedPlayRequest} = {}
                         \<longrightarrow> songPosition e' = songPosition e)"
      by (rule play)
  next
    assume "requestsHandled e" and "SyncedStopRequest \<in> songRequests ?ss"
    then show "if W
                then SyncedStopRequest \<notin> songRequests ?ss' \<and> \<not> playing ?ss'
                else SyncedStopRequest \<in> songRequests ?ss'"
      by (rule stop)
  qed
  have unhandled: "\<not> requestsHandled e \<longrightarrow>
            (\<forall>i < CONFIG_TRACK_COUNT e.
                requests (?ts' i) = requests (?ts i) \<and> mute (?ts' i) = mute (?ts i))
          \<and> songRequests ?ss' = songRequests ?ss"
    using settings song(1) by simp
  from mw(2,3) body handled unhandled tr show ?thesis
    by (intro conjI)
qed

text \<open>
  C1. Let \<open>M = syncMeasure * CONFIG_PPQN * 4\<close>, positive and representable in the 32-bit
  \<^verbatim>\<open>measureDivisor\<close>, let \<open>W\<close> stand for \<open>tick mod M = 0 \<or> tick mod M = M - 1\<close> and \<open>S\<close> for
  \<open>ticked \<and> tick mod M = M - 1\<close>. Every call of \<open>updatePlayState\<close> computes
  \<^verbatim>\<open>handleSyncedRequests\<close> as \<open>W\<close> and \<^verbatim>\<open>switchToNextSlot\<close> as \<open>S\<close>; it returns when every slot
  holds an engine and the song slots it reads exist, and the result of every returning
  call (the track-state array covering all tracks) shows the two conditions at work.
  When the call handles requests, every track ends with its requests minus the mute
  and pattern masks for \<open>W\<close>, and with the requested mute exactly when a mute request of
  the mask was pending. A pending Synced mute request is applied and cleared when \<open>W\<close>
  holds, and otherwise stays pending (and the mute stays, unless an Immediate or Latched
  mute request was pending too); the same for a Synced pattern request (the pattern is
  the requested one unless a Play request carried out in the call wrote the patterns of
  its slot), for a Synced Play request (with a valid \<open>requestedSlot\<close> the song is on that
  slot, repeat 0) and for a Synced Stop request (the song does not play afterwards).
  When no bucket flag is set, no request and no mute changes. The calls on the track
  engines are: a reset of every engine exactly when \<open>S\<close> holds and the song plays after
  the requests of the call, then the hand-over of every track state exactly when
  requests were handled or \<open>S\<close> holds.
\<close>

theorem updatePlayState_measure_window:
  assumes M: "M = syncMeasure (project e) * CONFIG_PPQN e * 4"
    and pos: "0 < M" and fits: "M < 2 ^ 32"
    and W: "W = (unat (tick e) mod M = 0 \<or> unat (tick e) mod M = M - 1)"
    and S: "S = (ticked \<and> unat (tick e) mod M = M - 1)"
    and hl: "hl = executeLatchedRequests (playState (project e))"
  shows "handleSyncedRequests e = W \<and> switchToNextSlot ticked e = S
       \<and> updatePlayState ticked e = updatePlayStateBody W S e
       \<and> (allEnginesPresent e
            \<and> (playCarriedOut W e \<longrightarrow>
                  (\<exists>slot. Song_slot (song (project e))
                            (requestedSlot (songState (playState (project e)))) = Inr slot))
            \<and> (slotChangeDue W S e \<longrightarrow>
                  (\<exists>slot slot'.
                      Song_slot (song (project e))
                        (currentSlot (songState (playState (project e)))) = Inr slot
                    \<and> Song_slot (song (project e))
                        (currentSlot (nextSongState (song (project e)) slot
                                        (songState (playState (project e))))) = Inr slot'))
          \<longrightarrow> (\<exists>e'. updatePlayState ticked e = Inr e'))
       \<and> (\<forall>e'. updatePlayState ticked e = Inr e'
               \<and> CONFIG_TRACK_COUNT e \<le> length (trackStates (playState (project e)))
          \<longrightarrow>
            (requestsHandled e \<longrightarrow>
                (\<forall>i < CONFIG_TRACK_COUNT e.
                    requests (trackStates (playState (project e')) ! i)
                      = requests (trackStates (playState (project e)) ! i)
                          - (muteRequests W hl \<union> patternRequests W hl)
                  \<and> mute (trackStates (playState (project e')) ! i)
                      = (if requests (trackStates (playState (project e)) ! i) \<inter> muteRequests W hl \<noteq> {}
                         then requestedMute (trackStates (playState (project e)) ! i)
                         else mute (trackStates (playState (project e)) ! i))
                  \<and> (SyncedMuteRequest \<in> requests (trackStates (playState (project e)) ! i) \<longrightarrow>
                       (if W
                        then mute (trackStates (playState (project e')) ! i)
                               = requestedMute (trackStates (playState (project e)) ! i)
                             \<and> SyncedMuteRequest \<notin> requests (trackStates (playState (project e')) ! i)
                        else SyncedMuteRequest \<in> requests (trackStates (playState (project e')) ! i)
                             \<and> (requests (trackStates (playState (project e)) ! i)
                                   \<inter> {ImmediateMuteRequest, LatchedMuteRequest} = {}
                                 \<longrightarrow> mute (trackStates (playState (project e')) ! i)
                                       = mute (trackStates (playState (project e)) ! i))))
                  \<and> (SyncedPatternRequest \<in> requests (trackStates (playState (project e)) ! i) \<longrightarrow>
                       (if W
                        then SyncedPatternRequest
                               \<notin> requests (trackStates (playState (project e')) ! i)
                             \<and> (\<not> playCarriedOut W e
                                 \<longrightarrow> pattern (trackStates (playState (project e')) ! i)
                                       = requestedPattern (trackStates (playState (project e)) ! i))
                        else SyncedPatternRequest \<in> requests (trackStates (playState (project e')) ! i)
                             \<and> (requests (trackStates (playState (project e)) ! i)
                                   \<inter> {ImmediatePatternRequest, LatchedPatternRequest} = {}
                                 \<and> \<not> playCarriedOut W e
                                 \<longrightarrow> pattern (trackStates (playState (project e')) ! i)
                                       = pattern (trackStates (playState (project e)) ! i)))))
              \<and> songRequests (songState (playState (project e')))
                  = songRequests (songState (playState (project e)))
                      - (playRequests W hl \<union> stopRequests W hl)
              \<and> (SyncedPlayRequest \<in> songRequests (songState (playState (project e))) \<longrightarrow>
                   (if W
                    then SyncedPlayRequest \<notin> songRequests (songState (playState (project e')))
                         \<and> (0 \<le> requestedSlot (songState (playState (project e)))
                             \<and> requestedSlot (songState (playState (project e)))
                                 < slotCount (song (project e))
                             \<longrightarrow> songPosition e'
                                   = (requestedSlot (songState (playState (project e))), 0))
                    else SyncedPlayRequest \<in> songRequests (songState (playState (project e')))
                         \<and> (songRequests (songState (playState (project e)))
                               \<inter> {ImmediatePlayRequest, LatchedPlayRequest} = {}
                             \<longrightarrow> songPosition e' = songPosition e)))
              \<and> (SyncedStopRequest \<in> songRequests (songState (playState (project e))) \<longrightarrow>
                   (if W
                    then SyncedStopRequest \<notin> songRequests (songState (playState (project e')))
                         \<and> \<not> playing (songState (playState (project e')))
                    else SyncedStopRequest \<in> songRequests (songState (playState (project e'))))))
           \<and> (\<not> requestsHandled e \<longrightarrow>
                (\<forall>i < CONFIG_TRACK_COUNT e.
                    requests (trackStates (playState (project e')) ! i)
                      = requests (trackStates (playState (project e)) ! i)
                  \<and> mute (trackStates (playState (project e')) ! i)
                      = mute (trackStates (playState (project e)) ! i))
              \<and> songRequests (songState (playState (project e')))
                  = songRequests (songState (playState (project e))))
           \<and> trace e' =
               trace e
               @ (if S \<and> playing (songState (playState (project e))) \<and> \<not> playCarriedOut W e
                     \<and> \<not> patternRequestFires W e \<and> \<not> stopRequestFires W e
                  then map (\<lambda>i. TrackEv i ResetEngine) [0..<CONFIG_TRACK_COUNT e] else [])
               @ (if requestsHandled e \<or> S
                  then concat (map (pushEvents e') [0..<CONFIG_TRACK_COUNT e]) else []))"
proof -
  have mw: "measureDivisor e \<noteq> 0" "handleSyncedRequests e = W" "switchToNextSlot ticked e = S"
    using measure_window_nat(1,2) [OF M pos fits] measure_window_nat(3) [OF M pos fits, of ticked]
      W S by simp_all
  have body: "updatePlayState ticked e = updatePlayStateBody W S e"
    using mw by (simp add: updatePlayState_def)
  have ret: "allEnginesPresent e
            \<and> (playCarriedOut W e \<longrightarrow>
                  (\<exists>slot. Song_slot (song (project e))
                            (requestedSlot (songState (playState (project e)))) = Inr slot))
            \<and> (slotChangeDue W S e \<longrightarrow>
                  (\<exists>slot slot'.
                      Song_slot (song (project e))
                        (currentSlot (songState (playState (project e)))) = Inr slot
                    \<and> Song_slot (song (project e))
                        (currentSlot (nextSongState (song (project e)) slot
                                        (songState (playState (project e))))) = Inr slot'))
          \<longrightarrow> (\<exists>e'. updatePlayState ticked e = Inr e')"
  proof
    assume a: "allEnginesPresent e
            \<and> (playCarriedOut W e \<longrightarrow>
                  (\<exists>slot. Song_slot (song (project e))
                            (requestedSlot (songState (playState (project e)))) = Inr slot))
            \<and> (slotChangeDue W S e \<longrightarrow>
                  (\<exists>slot slot'.
                      Song_slot (song (project e))
                        (currentSlot (songState (playState (project e)))) = Inr slot
                    \<and> Song_slot (song (project e))
                        (currentSlot (nextSongState (song (project e)) slot
                                        (songState (playState (project e))))) = Inr slot'))"
    then have present: "allEnginesPresent e"
      by simp
    have "updatePlayStateBody W S e = Inr (arbitrated W S e)"
      by (rule updatePlayStateBody_present [OF present])
        (use a in \<open>auto simp: Song_slot_Inr\<close>)
    with body show "\<exists>e'. updatePlayState ticked e = Inr e'"
      by simp
  qed
  have res: "\<forall>e'. updatePlayState ticked e = Inr e'
               \<and> CONFIG_TRACK_COUNT e \<le> length (trackStates (playState (project e)))
          \<longrightarrow>
            (requestsHandled e \<longrightarrow>
            (\<forall>i < CONFIG_TRACK_COUNT e.
                requests (trackStates (playState (project e')) ! i)
                  = requests (trackStates (playState (project e)) ! i)
                      - (muteRequests W hl \<union> patternRequests W hl)
              \<and> mute (trackStates (playState (project e')) ! i)
                  = (if requests (trackStates (playState (project e)) ! i) \<inter> muteRequests W hl \<noteq> {}
                     then requestedMute (trackStates (playState (project e)) ! i)
                     else mute (trackStates (playState (project e)) ! i))
              \<and> (SyncedMuteRequest \<in> requests (trackStates (playState (project e)) ! i) \<longrightarrow>
                   (if W
                    then mute (trackStates (playState (project e')) ! i)
                           = requestedMute (trackStates (playState (project e)) ! i)
                         \<and> SyncedMuteRequest \<notin> requests (trackStates (playState (project e')) ! i)
                    else SyncedMuteRequest \<in> requests (trackStates (playState (project e')) ! i)
                         \<and> (requests (trackStates (playState (project e)) ! i)
                               \<inter> {ImmediateMuteRequest, LatchedMuteRequest} = {}
                             \<longrightarrow> mute (trackStates (playState (project e')) ! i)
                                   = mute (trackStates (playState (project e)) ! i))))
              \<and> (SyncedPatternRequest \<in> requests (trackStates (playState (project e)) ! i) \<longrightarrow>
                   (if W
                    then SyncedPatternRequest
                           \<notin> requests (trackStates (playState (project e')) ! i)
                         \<and> (\<not> playCarriedOut W e
                             \<longrightarrow> pattern (trackStates (playState (project e')) ! i)
                                   = requestedPattern (trackStates (playState (project e)) ! i))
                    else SyncedPatternRequest \<in> requests (trackStates (playState (project e')) ! i)
                         \<and> (requests (trackStates (playState (project e)) ! i)
                               \<inter> {ImmediatePatternRequest, LatchedPatternRequest} = {}
                             \<and> \<not> playCarriedOut W e
                             \<longrightarrow> pattern (trackStates (playState (project e')) ! i)
                                   = pattern (trackStates (playState (project e)) ! i)))))
          \<and> songRequests (songState (playState (project e')))
              = songRequests (songState (playState (project e)))
                  - (playRequests W hl \<union> stopRequests W hl)
          \<and> (SyncedPlayRequest \<in> songRequests (songState (playState (project e))) \<longrightarrow>
               (if W
                then SyncedPlayRequest \<notin> songRequests (songState (playState (project e')))
                     \<and> (0 \<le> requestedSlot (songState (playState (project e)))
                         \<and> requestedSlot (songState (playState (project e)))
                             < slotCount (song (project e))
                         \<longrightarrow> songPosition e'
                               = (requestedSlot (songState (playState (project e))), 0))
                else SyncedPlayRequest \<in> songRequests (songState (playState (project e')))
                     \<and> (songRequests (songState (playState (project e)))
                           \<inter> {ImmediatePlayRequest, LatchedPlayRequest} = {}
                         \<longrightarrow> songPosition e' = songPosition e)))
          \<and> (SyncedStopRequest \<in> songRequests (songState (playState (project e))) \<longrightarrow>
               (if W
                then SyncedStopRequest \<notin> songRequests (songState (playState (project e')))
                     \<and> \<not> playing (songState (playState (project e')))
                else SyncedStopRequest \<in> songRequests (songState (playState (project e'))))))
       \<and> (\<not> requestsHandled e \<longrightarrow>
            (\<forall>i < CONFIG_TRACK_COUNT e.
                requests (trackStates (playState (project e')) ! i)
                  = requests (trackStates (playState (project e)) ! i)
              \<and> mute (trackStates (playState (project e')) ! i)
                  = mute (trackStates (playState (project e)) ! i))
          \<and> songRequests (songState (playState (project e')))
              = songRequests (songState (playState (project e))))
       \<and> trace e' =
           trace e
           @ (if S \<and> playing (songState (playState (project e))) \<and> \<not> playCarriedOut W e
                 \<and> \<not> patternRequestFires W e \<and> \<not> stopRequestFires W e
              then map (\<lambda>i. TrackEv i ResetEngine) [0..<CONFIG_TRACK_COUNT e] else [])
           @ (if requestsHandled e \<or> S
              then concat (map (pushEvents e') [0..<CONFIG_TRACK_COUNT e]) else [])"
  proof (rule allI, rule impI)
    fix e'
    assume "updatePlayState ticked e = Inr e'
               \<and> CONFIG_TRACK_COUNT e \<le> length (trackStates (playState (project e)))"
    then have run: "updatePlayState ticked e = Inr e'"
      and len: "CONFIG_TRACK_COUNT e \<le> length (trackStates (playState (project e)))"
      by simp_all
    show "(requestsHandled e \<longrightarrow>
            (\<forall>i < CONFIG_TRACK_COUNT e.
                requests (trackStates (playState (project e')) ! i)
                  = requests (trackStates (playState (project e)) ! i)
                      - (muteRequests W hl \<union> patternRequests W hl)
              \<and> mute (trackStates (playState (project e')) ! i)
                  = (if requests (trackStates (playState (project e)) ! i) \<inter> muteRequests W hl \<noteq> {}
                     then requestedMute (trackStates (playState (project e)) ! i)
                     else mute (trackStates (playState (project e)) ! i))
              \<and> (SyncedMuteRequest \<in> requests (trackStates (playState (project e)) ! i) \<longrightarrow>
                   (if W
                    then mute (trackStates (playState (project e')) ! i)
                           = requestedMute (trackStates (playState (project e)) ! i)
                         \<and> SyncedMuteRequest \<notin> requests (trackStates (playState (project e')) ! i)
                    else SyncedMuteRequest \<in> requests (trackStates (playState (project e')) ! i)
                         \<and> (requests (trackStates (playState (project e)) ! i)
                               \<inter> {ImmediateMuteRequest, LatchedMuteRequest} = {}
                             \<longrightarrow> mute (trackStates (playState (project e')) ! i)
                                   = mute (trackStates (playState (project e)) ! i))))
              \<and> (SyncedPatternRequest \<in> requests (trackStates (playState (project e)) ! i) \<longrightarrow>
                   (if W
                    then SyncedPatternRequest
                           \<notin> requests (trackStates (playState (project e')) ! i)
                         \<and> (\<not> playCarriedOut W e
                             \<longrightarrow> pattern (trackStates (playState (project e')) ! i)
                                   = requestedPattern (trackStates (playState (project e)) ! i))
                    else SyncedPatternRequest \<in> requests (trackStates (playState (project e')) ! i)
                         \<and> (requests (trackStates (playState (project e)) ! i)
                               \<inter> {ImmediatePatternRequest, LatchedPatternRequest} = {}
                             \<and> \<not> playCarriedOut W e
                             \<longrightarrow> pattern (trackStates (playState (project e')) ! i)
                                   = pattern (trackStates (playState (project e)) ! i)))))
          \<and> songRequests (songState (playState (project e')))
              = songRequests (songState (playState (project e)))
                  - (playRequests W hl \<union> stopRequests W hl)
          \<and> (SyncedPlayRequest \<in> songRequests (songState (playState (project e))) \<longrightarrow>
               (if W
                then SyncedPlayRequest \<notin> songRequests (songState (playState (project e')))
                     \<and> (0 \<le> requestedSlot (songState (playState (project e)))
                         \<and> requestedSlot (songState (playState (project e)))
                             < slotCount (song (project e))
                         \<longrightarrow> songPosition e'
                               = (requestedSlot (songState (playState (project e))), 0))
                else SyncedPlayRequest \<in> songRequests (songState (playState (project e')))
                     \<and> (songRequests (songState (playState (project e)))
                           \<inter> {ImmediatePlayRequest, LatchedPlayRequest} = {}
                         \<longrightarrow> songPosition e' = songPosition e)))
          \<and> (SyncedStopRequest \<in> songRequests (songState (playState (project e))) \<longrightarrow>
               (if W
                then SyncedStopRequest \<notin> songRequests (songState (playState (project e')))
                     \<and> \<not> playing (songState (playState (project e')))
                else SyncedStopRequest \<in> songRequests (songState (playState (project e'))))))
       \<and> (\<not> requestsHandled e \<longrightarrow>
            (\<forall>i < CONFIG_TRACK_COUNT e.
                requests (trackStates (playState (project e')) ! i)
                  = requests (trackStates (playState (project e)) ! i)
              \<and> mute (trackStates (playState (project e')) ! i)
                  = mute (trackStates (playState (project e)) ! i))
          \<and> songRequests (songState (playState (project e')))
              = songRequests (songState (playState (project e))))
       \<and> trace e' =
           trace e
           @ (if S \<and> playing (songState (playState (project e))) \<and> \<not> playCarriedOut W e
                 \<and> \<not> patternRequestFires W e \<and> \<not> stopRequestFires W e
              then map (\<lambda>i. TrackEv i ResetEngine) [0..<CONFIG_TRACK_COUNT e] else [])
           @ (if requestsHandled e \<or> S
              then concat (map (pushEvents e') [0..<CONFIG_TRACK_COUNT e]) else [])"
      by (rule updatePlayState_window_result [OF M pos fits W S hl len run,
            THEN conjunct2, THEN conjunct2, THEN conjunct2])
  qed
  from mw(2,3) body ret res show ?thesis
    by (intro conjI)
qed

theorem updatePlayState_measure_window_witness:
  "SyncedMuteRequest \<in> requests (trackStates (playState (project (syncedScenario 767))) ! 0)
   \<and> SyncedPatternRequest \<in> requests (trackStates (playState (project (syncedScenario 767))) ! 1)
   \<and> (\<exists>e'. updatePlayState True (syncedScenario 767) = Inr e'
          \<and> mute (trackStates (playState (project e')) ! 0)
          \<and> SyncedMuteRequest \<notin> requests (trackStates (playState (project e')) ! 0)
          \<and> pattern (trackStates (playState (project e')) ! 1) = 5
          \<and> SyncedPatternRequest \<notin> requests (trackStates (playState (project e')) ! 1))
   \<and> (\<exists>e'. updatePlayState True (syncedScenario 100) = Inr e'
          \<and> \<not> mute (trackStates (playState (project e')) ! 0)
          \<and> SyncedMuteRequest \<in> requests (trackStates (playState (project e')) ! 0)
          \<and> pattern (trackStates (playState (project e')) ! 1) = 0
          \<and> SyncedPatternRequest \<in> requests (trackStates (playState (project e')) ! 1))
   \<and> (\<exists>e'. updatePlayState False (syncedPlayScenario 768) = Inr e'
          \<and> SyncedPlayRequest \<notin> songRequests (songState (playState (project e')))
          \<and> songPosition e' = (1, 0))
   \<and> (\<exists>e'. updatePlayState True (syncedPlayScenario 100) = Inr e'
          \<and> SyncedPlayRequest \<in> songRequests (songState (playState (project e')))
          \<and> songPosition e' = (0, 0))
   \<and> (\<exists>e'. updatePlayState True (scenarioEngine\<lparr>tick := 767\<rparr>) = Inr e'
          \<and> take 2 (trace e') = [TrackEv 0 ResetEngine, TrackEv 1 ResetEngine])
   \<and> updatePlayState False (scenarioEngine\<lparr>tick := 767\<rparr>) = Inr (scenarioEngine\<lparr>tick := 767\<rparr>)"
proof -
  let ?A = "syncedScenario 767"
  let ?B = "syncedScenario 100"
  let ?C = "syncedPlayScenario 768"
  let ?D = "syncedPlayScenario 100"
  let ?E = "scenarioEngine\<lparr>tick := 767\<rparr>"
  have "\<exists>e'. updatePlayState True ?A = Inr e'"
    by (simp add: syncedScenario_def arbitration_defs model_defs)
  then obtain a where a: "updatePlayState True ?A = Inr a" ..
  have "\<exists>e'. updatePlayState True ?B = Inr e'"
    by (simp add: syncedScenario_def arbitration_defs model_defs)
  then obtain b where b: "updatePlayState True ?B = Inr b" ..
  have "\<exists>e'. updatePlayState False ?C = Inr e'"
    by (simp add: syncedPlayScenario_def arbitration_defs model_defs)
  then obtain c where c: "updatePlayState False ?C = Inr c" ..
  have "\<exists>e'. updatePlayState True ?D = Inr e'"
    by (simp add: syncedPlayScenario_def arbitration_defs model_defs)
  then obtain d where d: "updatePlayState True ?D = Inr d" ..
  have "\<exists>e'. updatePlayState True ?E = Inr e'"
    by (simp add: model_defs)
  then obtain f where f: "updatePlayState True ?E = Inr f" ..
  have g: "updatePlayState False ?E = Inr ?E"
    by (simp add: model_defs)
  have nf: "(0::nat) < 768" "(768::nat) < 2 ^ 32"
    by simp_all
  have hA: "768 = syncMeasure (project ?A) * CONFIG_PPQN ?A * 4"
    "True = (unat (tick ?A) mod 768 = 0 \<or> unat (tick ?A) mod 768 = 768 - 1)"
    "True = (True \<and> unat (tick ?A) mod 768 = 768 - 1)"
    "False = executeLatchedRequests (playState (project ?A))"
    "CONFIG_TRACK_COUNT ?A \<le> length (trackStates (playState (project ?A)))"
    by (simp_all add: syncedScenario_def model_defs)
  have sA: "requestsHandled ?A" "CONFIG_TRACK_COUNT ?A = 2" "\<not> playCarriedOut True ?A"
    "SyncedMuteRequest \<in> requests (trackStates (playState (project ?A)) ! 0)"
    "SyncedPatternRequest \<in> requests (trackStates (playState (project ?A)) ! 1)"
    "requestedMute (trackStates (playState (project ?A)) ! 0)"
    "requestedPattern (trackStates (playState (project ?A)) ! 1) = 5"
    by (simp_all add: syncedScenario_def requestsHandled_def playCarriedOut_def model_defs)
  note tA = updatePlayState_measure_window [OF hA(1) nf hA(2,3,4), THEN conjunct2, THEN conjunct2,
      THEN conjunct2, THEN conjunct2, rule_format, OF conjI, OF a hA(5)]
  have rA: "mute (trackStates (playState (project a)) ! 0)
          \<and> SyncedMuteRequest \<notin> requests (trackStates (playState (project a)) ! 0)
          \<and> pattern (trackStates (playState (project a)) ! 1) = 5
          \<and> SyncedPatternRequest \<notin> requests (trackStates (playState (project a)) ! 1)"
    using tA sA by (auto simp: all_less_two muteRequests_def patternRequests_def)
  have hB: "768 = syncMeasure (project ?B) * CONFIG_PPQN ?B * 4"
    "False = (unat (tick ?B) mod 768 = 0 \<or> unat (tick ?B) mod 768 = 768 - 1)"
    "False = (True \<and> unat (tick ?B) mod 768 = 768 - 1)"
    "False = executeLatchedRequests (playState (project ?B))"
    "CONFIG_TRACK_COUNT ?B \<le> length (trackStates (playState (project ?B)))"
    by (simp_all add: syncedScenario_def model_defs)
  have sB: "requestsHandled ?B" "CONFIG_TRACK_COUNT ?B = 2" "\<not> playCarriedOut False ?B"
    "requests (trackStates (playState (project ?B)) ! 0) = {SyncedMuteRequest}"
    "requests (trackStates (playState (project ?B)) ! 1) = {SyncedPatternRequest}"
    "\<not> mute (trackStates (playState (project ?B)) ! 0)"
    "pattern (trackStates (playState (project ?B)) ! 1) = 0"
    by (simp_all add: syncedScenario_def requestsHandled_def playCarriedOut_def model_defs)
  note tB = updatePlayState_measure_window [OF hB(1) nf hB(2,3,4), THEN conjunct2, THEN conjunct2,
      THEN conjunct2, THEN conjunct2, rule_format, OF conjI, OF b hB(5)]
  have rB: "\<not> mute (trackStates (playState (project b)) ! 0)
          \<and> SyncedMuteRequest \<in> requests (trackStates (playState (project b)) ! 0)
          \<and> pattern (trackStates (playState (project b)) ! 1) = 0
          \<and> SyncedPatternRequest \<in> requests (trackStates (playState (project b)) ! 1)"
    using tB sB by (auto simp: all_less_two muteRequests_def patternRequests_def)
  have hC: "768 = syncMeasure (project ?C) * CONFIG_PPQN ?C * 4"
    "True = (unat (tick ?C) mod 768 = 0 \<or> unat (tick ?C) mod 768 = 768 - 1)"
    "False = (False \<and> unat (tick ?C) mod 768 = 768 - 1)"
    "False = executeLatchedRequests (playState (project ?C))"
    "CONFIG_TRACK_COUNT ?C \<le> length (trackStates (playState (project ?C)))"
    by (simp_all add: syncedPlayScenario_def model_defs)
  have sC: "requestsHandled ?C"
    "SyncedPlayRequest \<in> songRequests (songState (playState (project ?C)))"
    "requestedSlot (songState (playState (project ?C))) = 1"
    "slotCount (song (project ?C)) = 2"
    by (simp_all add: syncedPlayScenario_def requestsHandled_def model_defs)
  note tC = updatePlayState_measure_window [OF hC(1) nf hC(2,3,4), THEN conjunct2, THEN conjunct2,
      THEN conjunct2, THEN conjunct2, rule_format, OF conjI, OF c hC(5)]
  have rC: "SyncedPlayRequest \<notin> songRequests (songState (playState (project c)))
          \<and> songPosition c = (1, 0)"
    using tC sC by (auto simp: playRequests_def stopRequests_def)
  have hD: "768 = syncMeasure (project ?D) * CONFIG_PPQN ?D * 4"
    "False = (unat (tick ?D) mod 768 = 0 \<or> unat (tick ?D) mod 768 = 768 - 1)"
    "False = (True \<and> unat (tick ?D) mod 768 = 768 - 1)"
    "False = executeLatchedRequests (playState (project ?D))"
    "CONFIG_TRACK_COUNT ?D \<le> length (trackStates (playState (project ?D)))"
    by (simp_all add: syncedPlayScenario_def model_defs)
  have sD: "requestsHandled ?D"
    "songRequests (songState (playState (project ?D))) = {SyncedPlayRequest}"
    "songPosition ?D = (0, 0)"
    by (simp_all add: syncedPlayScenario_def requestsHandled_def songPosition_def model_defs)
  note tD = updatePlayState_measure_window [OF hD(1) nf hD(2,3,4), THEN conjunct2, THEN conjunct2,
      THEN conjunct2, THEN conjunct2, rule_format, OF conjI, OF d hD(5)]
  have rD: "SyncedPlayRequest \<in> songRequests (songState (playState (project d)))
          \<and> songPosition d = (0, 0)"
    using tD sD by (auto simp: playRequests_def stopRequests_def)
  have hE: "768 = syncMeasure (project ?E) * CONFIG_PPQN ?E * 4"
    "True = (unat (tick ?E) mod 768 = 0 \<or> unat (tick ?E) mod 768 = 768 - 1)"
    "True = (True \<and> unat (tick ?E) mod 768 = 768 - 1)"
    "False = executeLatchedRequests (playState (project ?E))"
    "CONFIG_TRACK_COUNT ?E \<le> length (trackStates (playState (project ?E)))"
    by (simp_all add: model_defs)
  have sE: "\<not> requestsHandled ?E" "CONFIG_TRACK_COUNT ?E = 2" "\<not> playCarriedOut True ?E"
    "\<not> patternRequestFires True ?E" "\<not> stopRequestFires True ?E"
    "playing (songState (playState (project ?E)))" "trace ?E = []"
    by (simp_all add: requestsHandled_def playCarriedOut_def patternRequestFires_def
        stopRequestFires_def model_defs)
  note tE = updatePlayState_measure_window [OF hE(1) nf hE(2,3,4), THEN conjunct2, THEN conjunct2,
      THEN conjunct2, THEN conjunct2, rule_format, OF conjI, OF f hE(5)]
  have rE: "take 2 (trace f) = [TrackEv 0 ResetEngine, TrackEv 1 ResetEngine]"
    using tE sE by (simp add: upt_rec)
  from a b c d f g rA rB rC rD rE sA(4,5) show ?thesis
    by blast
qed

end
